theory Spec2Isabelle
  imports Main "HOL-Library.Sublist"
begin

section \<open>Go strings\<close>

text \<open>
  A Go string is read here as the sequence of its Unicode code points (runes). Every
  string function the package calls (\<open>strings.ToLower\<close>, \<open>strings.Fields\<close>,
  \<open>strings.Replace\<close>, \<open>strings.Contains\<close>, \<open>strings.HasPrefix\<close>,
  \<open>strings.Join\<close>, \<open>range\<close> over a string) works rune by rune on well-formed UTF-8,
  and the byte operations of the package (\<open>s[2:]\<close> after a two-byte ASCII prefix,
  \<open>qc[0] == '!'\<close>, \<open>qc[1:]\<close>) cut at ASCII characters, which are one byte and one rune.
\<close>

type_synonym rune = nat
type_synonym gostring = "rune list"

definition str :: "string \<Rightarrow> gostring" where
  \<comment> \<open>an ASCII literal of the source as runes\<close>
  "str s = map of_char s"

text \<open>
  \<open>unicode.ToLower\<close>: the ASCII range is decided by comparison, every other rune by
  the case table of the \<open>unicode\<close> package. The table is not part of the repository;
  it is the parameter \<open>tbl\<close> of everything that folds case.
\<close>

type_synonym case_table = "rune \<Rightarrow> rune"

definition unicode_ToLower :: "case_table \<Rightarrow> rune \<Rightarrow> rune" where
  "unicode_ToLower tbl r =
     (if r \<le> 0x7F then (if 0x41 \<le> r \<and> r \<le> 0x5A then r + 0x20 else r) else tbl r)"

definition ToLower :: "case_table \<Rightarrow> gostring \<Rightarrow> gostring" where
  "ToLower tbl s = map (unicode_ToLower tbl) s"

definition IsSpace :: "rune \<Rightarrow> bool" where
  \<comment> \<open>\<open>unicode.IsSpace\<close>: the White\_Space property\<close>
  "IsSpace r =
     ((0x09 \<le> r \<and> r \<le> 0x0D) \<or> r = 0x20 \<or> r = 0x85 \<or> r = 0xA0 \<or> r = 0x1680
      \<or> (0x2000 \<le> r \<and> r \<le> 0x200A) \<or> r = 0x2028 \<or> r = 0x2029 \<or> r = 0x202F
      \<or> r = 0x205F \<or> r = 0x3000)"

fun fieldsFrom :: "gostring \<Rightarrow> gostring \<Rightarrow> gostring list" where
  \<comment> \<open>the scan of \<open>strings.Fields\<close>; \<open>cur\<close> is the field being read\<close>
  "fieldsFrom cur [] = (if cur = [] then [] else [cur])"
| "fieldsFrom cur (r # rs) =
     (if IsSpace r then (if cur = [] then fieldsFrom [] rs else cur # fieldsFrom [] rs)
      else fieldsFrom (cur @ [r]) rs)"

definition Fields :: "gostring \<Rightarrow> gostring list" where
  "Fields s = fieldsFrom [] s"

definition HasPrefix :: "gostring \<Rightarrow> gostring \<Rightarrow> bool" where
  "HasPrefix s p = prefix p s"

fun Contains :: "gostring \<Rightarrow> gostring \<Rightarrow> bool" where
  "Contains [] sub = (sub = [])"
| "Contains (r # rs) sub = (prefix sub (r # rs) \<or> Contains rs sub)"

fun Join :: "gostring list \<Rightarrow> gostring \<Rightarrow> gostring" where
  "Join [] sep = []"
| "Join [a] sep = a"
| "Join (a # b # bs) sep = a @ sep @ Join (b # bs) sep"

function replaceFrom :: "gostring \<Rightarrow> gostring \<Rightarrow> gostring \<Rightarrow> gostring" where
  \<comment> \<open>left-to-right, non-overlapping replacement of a non-empty \<open>old\<close>\<close>
  "replaceFrom [] old new = []"
| "replaceFrom (r # rs) old new =
     (if old \<noteq> [] \<and> prefix old (r # rs)
      then new @ replaceFrom (drop (length old) (r # rs)) old new
      else r # replaceFrom rs old new)"
  by pat_completeness auto
termination
  by (relation "measure (\<lambda>(s, old, new). length s)") (auto simp: neq_Nil_conv)

definition Replace :: "gostring \<Rightarrow> gostring \<Rightarrow> gostring \<Rightarrow> gostring" where
  \<comment> \<open>\<open>strings.Replace(s, old, new, -1)\<close>; an empty \<open>old\<close> matches before every rune
      and at the end\<close>
  "Replace s old new =
     (if old = [] then new @ concat (map (\<lambda>r. r # new) s) else replaceFrom s old new)"

section \<open>Cards\<close>

text \<open>
  \<open>Card\<close> with the fields that the package reads. The other fields of the Go struct
  (mana cost, rarity, rulings and so on) are decoded and handed to the callers; no function
  of the package looks at them, and they are left out.
\<close>

record Card =
  Name :: gostring
  Names :: "gostring list"
  Colors :: "gostring list"
  Type :: gostring
  Text :: gostring

section \<open>The query engine (query.go)\<close>

record Query =
  qName :: "gostring list"
  qRule :: "gostring list"
  qType :: "gostring list"
  qColor :: "gostring list"

definition shortColor :: "gostring \<Rightarrow> gostring" where
  "shortColor long =
     (if long = str ''White'' then str ''w''
      else if long = str ''Blue'' then str ''u''
      else if long = str ''Black'' then str ''b''
      else if long = str ''Red'' then str ''r''
      else if long = str ''Green'' then str ''g''
      else [])"

text \<open>
  The loops of \<open>Match\<close> return \<open>False\<close> where the source executes \<open>return false\<close> and
  go on with the rest of the list where it executes \<open>continue\<close>.
\<close>

fun matchNames :: "case_table \<Rightarrow> Card \<Rightarrow> gostring list \<Rightarrow> bool" where
  "matchNames tbl c [] = True"
| "matchNames tbl c (qn # qns) =
     (if Contains (ToLower tbl (Name c)) qn then matchNames tbl c qns else False)"

fun matchRules :: "case_table \<Rightarrow> Card \<Rightarrow> gostring list \<Rightarrow> bool" where
  "matchRules tbl c [] = True"
| "matchRules tbl c (qr # qrs) =
     (if \<not> Contains (ToLower tbl (Text c)) qr then False else matchRules tbl c qrs)"

fun matchTypes :: "case_table \<Rightarrow> Card \<Rightarrow> gostring list \<Rightarrow> bool" where
  "matchTypes tbl c [] = True"
| "matchTypes tbl c (qt # qts) =
     (if Contains (ToLower tbl (Type c)) qt then matchTypes tbl c qts else False)"

fun colorScan :: "gostring list \<Rightarrow> gostring \<Rightarrow> bool \<Rightarrow> bool" where
  \<comment> \<open>the inner loop over \<open>c.Colors\<close> and the two statements after it:
      \<open>True\<close> is \<open>continue Color\<close>, \<open>False\<close> is \<open>return false\<close>\<close>
  "colorScan [] qc neg = (if neg then True else False)"
| "colorScan (col # cols) qc neg =
     (if shortColor col = qc then (if neg then False else True) else colorScan cols qc neg)"

definition colorStep :: "Card \<Rightarrow> gostring \<Rightarrow> bool" where
  \<comment> \<open>one pass of the loop labelled \<open>Color\<close>\<close>
  "colorStep c qc0 =
     (if length qc0 = 0 then True
      else
        let neg = (hd qc0 = 0x21);
            qc = (if neg then tl qc0 else qc0)
        in if qc = str ''m'' \<and> length (Colors c) > 1 then (if neg then False else True)
           else colorScan (Colors c) qc neg)"

fun matchColors :: "Card \<Rightarrow> gostring list \<Rightarrow> bool" where
  "matchColors c [] = True"
| "matchColors c (qc # qcs) = (if colorStep c qc then matchColors c qcs else False)"

definition Match :: "case_table \<Rightarrow> Query \<Rightarrow> Card \<Rightarrow> bool" where
  "Match tbl q c =
     (if \<not> matchNames tbl c (qName q) then False
      else if \<not> matchRules tbl c (qRule q) then False
      else if \<not> matchTypes tbl c (qType q) then False
      else matchColors c (qColor q))"

definition validColor :: "rune \<Rightarrow> bool" where
  "validColor c = (c \<in> set (str ''wubrgm''))"

definition emptyQuery :: Query where
  "emptyQuery = \<lparr>qName = [], qRule = [], qType = [], qColor = []\<rparr>"

definition addToken :: "case_table \<Rightarrow> Query \<Rightarrow> gostring \<Rightarrow> Query" where
  \<comment> \<open>the body of the loop of \<open>ParseQuery\<close>: the \<open>switch\<close> takes the first case that holds\<close>
  "addToken tbl q s =
     (if HasPrefix s (str ''o:'') then q\<lparr>qRule := qRule q @ [ToLower tbl (drop 2 s)]\<rparr>
      else if HasPrefix s (str ''t:'') then q\<lparr>qType := qType q @ [ToLower tbl (drop 2 s)]\<rparr>
      else if HasPrefix s (str ''c:'')
        then q\<lparr>qColor := qColor q @ map (\<lambda>c. [c]) (filter validColor (ToLower tbl (drop 2 s)))\<rparr>
      else if HasPrefix s (str ''c!'')
        then q\<lparr>qColor := qColor q
                 @ map (\<lambda>c. str ''!'' @ [c]) (filter validColor (ToLower tbl (drop 2 s)))\<rparr>
      else q\<lparr>qName := qName q @ [ToLower tbl s]\<rparr>)"

definition ParseQuery :: "case_table \<Rightarrow> gostring \<Rightarrow> Query" where
  "ParseQuery tbl s = foldl (addToken tbl) emptyQuery (Fields s)"

text \<open>
  The colour predicates as the specification words them, to be compared with the loop:
  the letter \<open>m\<close> asks for more than one colour, any other letter for a colour of that
  short form; a negated predicate asks for the opposite.
\<close>

definition multicolored :: "Card \<Rightarrow> bool" where
  "multicolored c = (length (Colors c) > 1)"

definition hasShort :: "Card \<Rightarrow> gostring \<Rightarrow> bool" where
  "hasShort c l = (l \<in> shortColor ` set (Colors c))"

definition colorSpec :: "Card \<Rightarrow> bool \<Rightarrow> gostring \<Rightarrow> bool" where
  "colorSpec c neg l =
     (if l = str ''m'' then (if neg then \<not> multicolored c else multicolored c)
      else if neg then \<not> hasShort c l else hasShort c l)"

section \<open>The catalog (cards.go)\<close>

text \<open>
  \<open>Cards.M\<close> is a Go map from card name to card. Its entries are listed here in the order
  in which one \<open>range\<close> statement visits them; Go leaves that order open, so every
  statement below is about every order. An entry is the card its pointer refers to, and
  two entries are the same card when all their fields agree. A catalog holds no nil
  pointer: the methods below dereference every entry. \<open>normalized\<close> is the index from
  normalized name to card; a missing key reads as \<open>None\<close>, the nil pointer that
  \<open>LookupNormalized\<close> returns.
\<close>

record Cards =
  M :: "(gostring \<times> Card) list"
  normalized :: "gostring \<rightharpoonup> Card"

definition normalizeCardName :: "gostring \<Rightarrow> gostring" where
  \<comment> \<open>U+00C6 is the ligature AE, U+2019 the right single quotation mark, U+0027 the
      apostrophe\<close>
  "normalizeCardName s = Replace (Replace s [0xC6] (str ''Ae'')) [0x2019] [0x27]"

definition indexCard :: "case_table \<Rightarrow> (gostring \<rightharpoonup> Card) \<Rightarrow> Card \<Rightarrow> (gostring \<rightharpoonup> Card)" where
  \<comment> \<open>the body of the loop of \<open>generateNormalized\<close>\<close>
  "indexCard tbl n crd =
     (let n1 = (if length (Names crd) \<noteq> 0
                then n(ToLower tbl (Join (Names crd) (str '' & '')) \<mapsto> crd,
                       ToLower tbl (Join (Names crd) (str '' / '')) \<mapsto> crd,
                       ToLower tbl (Join (Names crd) (str '' // '')) \<mapsto> crd)
                else n)
      in n1(ToLower tbl (normalizeCardName (Name crd)) \<mapsto> crd))"

definition generateNormalized :: "case_table \<Rightarrow> Cards \<Rightarrow> Cards" where
  "generateNormalized tbl c =
     c\<lparr>normalized := foldl (indexCard tbl) (normalized c) (map snd (M c))\<rparr>"

definition LookupNormalized :: "case_table \<Rightarrow> Cards \<Rightarrow> gostring \<Rightarrow> Card option" where
  "LookupNormalized tbl c cardName =
     normalized c (ToLower tbl (normalizeCardName cardName))"

definition newCards :: "case_table \<Rightarrow> (gostring \<times> Card) list \<Rightarrow> Cards" where
  \<comment> \<open>the catalog \<open>maybeUpdate\<close> builds from the decoded entries\<close>
  "newCards tbl m = generateNormalized tbl \<lparr>M = m, normalized = Map.empty\<rparr>"

definition readBool :: "(gostring \<rightharpoonup> bool) \<Rightarrow> gostring \<Rightarrow> bool" where
  \<comment> \<open>indexing a Go \<open>map[string]bool\<close>: a missing key reads as \<open>false\<close>\<close>
  "readBool m k = (case m k of None \<Rightarrow> False | Some b \<Rightarrow> b)"

definition setTrue :: "(gostring \<rightharpoonup> bool) \<Rightarrow> gostring \<Rightarrow> (gostring \<rightharpoonup> bool)" where
  \<comment> \<open>the assignment \<open>m[k] = true\<close>\<close>
  "setTrue m k = m(k \<mapsto> True)"

fun queryLoop ::
  "case_table \<Rightarrow> Query \<Rightarrow> (gostring \<times> Card) list \<Rightarrow> Card list \<Rightarrow> (gostring \<rightharpoonup> bool)
     \<Rightarrow> Card list" where
  \<comment> \<open>the loop of \<open>Cards.Query\<close> with its variables \<open>match\<close> and \<open>seen\<close>\<close>
  "queryLoop tbl query [] match seen = match"
| "queryLoop tbl query ((k, crd) # rest) match seen =
     (if Match tbl query crd \<and> \<not> readBool seen (Name crd)
      then queryLoop tbl query rest (match @ [crd]) (setTrue seen (Name crd))
      else queryLoop tbl query rest match seen)"

definition Cards_Query :: "case_table \<Rightarrow> Cards \<Rightarrow> gostring \<Rightarrow> Card list \<times> gostring option" where
  \<comment> \<open>the second component is the \<open>error\<close>; \<open>None\<close> is \<open>nil\<close>\<close>
  "Cards_Query tbl c q = (queryLoop tbl (ParseQuery tbl q) (M c) [] Map.empty, None)"

section \<open>The store (cards.go)\<close>

text \<open>
  The three channels of a store only ever get closed and received from. A channel is an
  index into the list of all channels made so far, which records for each whether it has
  been closed. An index outside the list stands for the nil channel. Closing a closed or
  nil channel panics: \<open>None\<close>.
\<close>

type_synonym chan = nat
type_synonym chans = "bool list"

definition make_chan :: "chans \<Rightarrow> chan \<times> chans" where
  "make_chan h = (length h, h @ [False])"

definition is_closed :: "chans \<Rightarrow> chan \<Rightarrow> bool" where
  \<comment> \<open>a receive from the channel proceeds\<close>
  "is_closed h c = (c < length h \<and> h ! c)"

definition close_chan :: "chans \<Rightarrow> chan \<Rightarrow> chans option" where
  "close_chan h c = (if c < length h \<and> \<not> h ! c then Some (h[c := True]) else None)"

text \<open>
  The fields \<open>Logger\<close> and \<open>Client\<close> are left out of the state: logging changes nothing
  that is read again, and the client is the environment, a parameter of \<open>maybeUpdate\<close>.
  A step of the model is a whole call of a method, or one move of the background task,
  with no other step in between. \<open>Cards\<close>, \<open>WaitForUpdate\<close> and the assignments of
  \<open>maybeUpdate\<close> run under the mutex \<open>mu\<close>. \<open>Close\<close> takes no lock: its two
  statements are modelled one by one (\<open>closeSelect\<close>, \<open>closeDefault\<close>), \<open>Close\<close> is a
  call that no other call of \<open>Close\<close> overlaps, and \<open>closeRun\<close> runs calls that overlap.
\<close>

record Store =
  updateFrequency :: nat
  closed :: chan
  ready :: chan
  cards :: "Cards option"
  etag :: gostring
  notifyCh :: chan

datatype watch_pc = Starting | Sleeping | Exited

record World =
  store :: Store
  heap :: chans
  watcher :: watch_pc

definition NewStore :: "chans \<Rightarrow> World" where
  \<comment> \<open>\<open>go s.watch()\<close> leaves the background task at its first statement\<close>
  "NewStore h =
     (let (r, h1) = make_chan h;
          (c, h2) = make_chan h1;
          (n, h3) = make_chan h2
      in \<lparr>store = \<lparr>updateFrequency = 3600000000000, closed = c, ready = r, cards = None,
                     etag = [], notifyCh = n\<rparr>,
           heap = h3, watcher = Starting\<rparr>)"

definition closeW :: "chan \<Rightarrow> World \<Rightarrow> World option" where
  "closeW c w = map_option (\<lambda>h. w\<lparr>heap := h\<rparr>) (close_chan (heap w) c)"

definition closeSelect :: "World \<Rightarrow> bool" where
  \<comment> \<open>the \<open>select\<close> of \<open>Close\<close>: the case \<open><-s.closed\<close> is ready\<close>
  "closeSelect w = is_closed (heap w) (closed (store w))"

definition closeDefault :: "World \<Rightarrow> World option" where
  \<comment> \<open>the \<open>default\<close> case: \<open>close(s.closed)\<close>\<close>
  "closeDefault w = closeW (closed (store w)) w"

definition Close :: "World \<Rightarrow> (gostring option \<times> World) option" where
  \<comment> \<open>a call of \<open>Close\<close> with no other call of \<open>Close\<close> between its two statements:
      the returned error, \<open>None\<close> for \<open>nil\<close>, and the state after the call\<close>
  "Close w =
     (if closeSelect w then Some (Some (str ''already closed''), w)
      else map_option (\<lambda>w'. (None, w')) (closeDefault w))"

text \<open>
  Calls of \<open>Close\<close> that overlap. Each call is at its \<open>select\<close>, or has taken the
  \<open>default\<close> case and is about to close the channel, or has returned. A schedule names
  the call that moves next.
\<close>

datatype close_pc = AtSelect | AtClose | Returned "gostring option"

fun closeMove :: "World \<Rightarrow> close_pc \<Rightarrow> (World \<times> close_pc) option" where
  "closeMove w AtSelect =
     Some (w, if closeSelect w then Returned (Some (str ''already closed'')) else AtClose)"
| "closeMove w AtClose = map_option (\<lambda>w'. (w', Returned None)) (closeDefault w)"
| "closeMove w (Returned e) = Some (w, Returned e)"

fun closeRun :: "World \<Rightarrow> close_pc list \<Rightarrow> nat list \<Rightarrow> (World \<times> close_pc list) option" where
  "closeRun w pcs [] = Some (w, pcs)"
| "closeRun w pcs (i # sched) =
     (if i < length pcs
      then (case closeMove w (pcs ! i) of
              None \<Rightarrow> None
            | Some (w', pc) \<Rightarrow> closeRun w' (pcs[i := pc]) sched)
      else closeRun w pcs sched)"

datatype 'a blocking = Blocks | Returns 'a

definition Store_Cards :: "World \<Rightarrow> Cards option blocking" where
  \<comment> \<open>\<open>Store.Cards\<close>: the receive from \<open>ready\<close> blocks until that channel is closed\<close>
  "Store_Cards w =
     (if is_closed (heap w) (ready (store w)) then Returns (cards (store w)) else Blocks)"

definition WaitForUpdate :: "World \<Rightarrow> chan" where
  \<comment> \<open>the channel the new goroutine waits on: \<open>s.notifyCh\<close> as read under the lock\<close>
  "WaitForUpdate w = notifyCh (store w)"

definition handleValue :: "World \<Rightarrow> chan \<Rightarrow> Cards option blocking" where
  \<comment> \<open>what the goroutine of \<open>WaitForUpdate\<close> can send on the returned channel:
      it passes \<open><-notifyCh\<close> and then calls \<open>s.Cards()\<close>\<close>
  "handleValue w n = (if is_closed (heap w) n then Store_Cards w else Blocks)"

text \<open>
  The environment of \<open>maybeUpdate\<close>: what \<open>hc.Do\<close> and \<open>ioutil.ReadAll\<close> give for a
  request with a given \<open>If-None-Match\<close> value (the status, the bytes read, whether the
  read failed, the \<open>Etag\<close> header), and \<open>json.Unmarshal\<close> on the body (\<open>None\<close> is a
  decoding error). The decoder stands for the feeds without a null entry: a null entry
  decodes to a nil pointer, which \<open>generateNormalized\<close> cannot dereference.
\<close>

datatype http_result =
    TransportError
  | Response (StatusCode: nat) (Body: "nat list") (ReadError: bool) (EtagHeader: gostring)

type_synonym http_client = "gostring \<Rightarrow> http_result"
type_synonym unmarshal = "nat list \<Rightarrow> (gostring \<times> Card) list option"

definition publish :: "Cards \<Rightarrow> gostring \<Rightarrow> World \<Rightarrow> chan \<times> World" where
  \<comment> \<open>the statements of \<open>maybeUpdate\<close> between \<open>s.mu.Lock()\<close> and \<open>s.mu.Unlock()\<close>;
      the first component is the local variable \<open>notify\<close>\<close>
  "publish cs hdr w =
     (let s1 = (store w)\<lparr>etag := hdr\<rparr>;
          s2 = s1\<lparr>cards := Some cs\<rparr>;
          (n, h) = make_chan (heap w);
          s3 = s2\<lparr>notifyCh := n\<rparr>;
          notify = notifyCh s3
      in (notify, w\<lparr>store := s3, heap := h\<rparr>))"

definition signalReady :: "World \<Rightarrow> World option" where
  \<comment> \<open>\<open>select { case <-s.ready: default: close(s.ready) }\<close>\<close>
  "signalReady w =
     (if is_closed (heap w) (ready (store w)) then Some w else closeW (ready (store w)) w)"

definition maybeUpdate :: "case_table \<Rightarrow> unmarshal \<Rightarrow> http_client \<Rightarrow> World \<Rightarrow> World option" where
  "maybeUpdate tbl unm hc w =
     (let et = etag (store w)
      in case hc et of
           TransportError \<Rightarrow> Some w
         | Response status b rerr hdr \<Rightarrow>
             if status = 304 then Some w
             else if status \<noteq> 200 then Some w
             else if rerr then Some w
             else (case unm b of
                     None \<Rightarrow> Some w
                   | Some m \<Rightarrow>
                       (let (notify, w1) = publish (newCards tbl m) hdr w
                        in Option.bind (closeW notify w1) signalReady)))"

definition loopTop :: "World \<Rightarrow> World" where
  \<comment> \<open>the head of the loop of \<open>watch\<close>: leave when the period is zero, else wait in the
      \<open>select\<close>\<close>
  "loopTop w =
     (if updateFrequency (store w) = 0 then w\<lparr>watcher := Exited\<rparr>
      else w\<lparr>watcher := Sleeping\<rparr>)"

text \<open>
  The background task waiting in its \<open>select\<close> takes one of the cases that are ready, and
  Go chooses at random when both are. The model has no clock, so the timer may be due at
  any moment: \<open>watch_step\<close> is the move that takes the timer case (or runs the first
  refresh), \<open>watch_closed\<close> the move that takes the case of the channel \<open>closed\<close>, which
  is ready once that channel is closed. Which of the two happens is up to the sequence
  of events.
\<close>

definition watch_step :: "case_table \<Rightarrow> unmarshal \<Rightarrow> http_client \<Rightarrow> World \<Rightarrow> World option" where
  "watch_step tbl unm hc w =
     (case watcher w of
        Starting \<Rightarrow> map_option loopTop (maybeUpdate tbl unm hc w)
      | Sleeping \<Rightarrow> map_option loopTop (maybeUpdate tbl unm hc w)
      | Exited \<Rightarrow> Some w)"

definition watch_closed :: "World \<Rightarrow> World" where
  "watch_closed w =
     (if watcher w = Sleeping \<and> is_closed (heap w) (closed (store w))
      then w\<lparr>watcher := Exited\<rparr> else w)"

datatype event =
  CallClose | CallCards | CallWaitForUpdate | Watch http_client | WatchClosed

definition step :: "case_table \<Rightarrow> unmarshal \<Rightarrow> World \<Rightarrow> event \<Rightarrow> World option" where
  "step tbl unm w e =
     (case e of
        CallClose \<Rightarrow> map_option snd (Close w)
      | CallCards \<Rightarrow> Some w
      | CallWaitForUpdate \<Rightarrow> Some w
      | Watch hc \<Rightarrow> watch_step tbl unm hc w
      | WatchClosed \<Rightarrow> Some (watch_closed w))"

fun run :: "case_table \<Rightarrow> unmarshal \<Rightarrow> World \<Rightarrow> event list \<Rightarrow> World option" where
  "run tbl unm w [] = Some w"
| "run tbl unm w (e # es) =
     (case step tbl unm w e of None \<Rightarrow> None | Some w' \<Rightarrow> run tbl unm w' es)"

section \<open>Auxiliary notions for the store\<close>

fun failed :: "unmarshal \<Rightarrow> http_result \<Rightarrow> bool" where
  \<comment> \<open>the refresh cycle with this outcome does not succeed: transport failure, status 304,
      any status other than 200 (every non-2xx status among them), a failed read of the
      body, or a body that does not decode\<close>
  "failed unm TransportError = True"
| "failed unm (Response st b rerr hdr) = (st = 304 \<or> st \<noteq> 200 \<or> rerr \<or> unm b = None)"

definition refreshes :: "World \<Rightarrow> bool" where
  \<comment> \<open>the move \<open>watch_step\<close> of the background task is a call of \<open>maybeUpdate\<close>\<close>
  "refreshes w = (watcher w = Starting \<or> watcher w = Sleeping)"

definition wf :: "World \<Rightarrow> bool" where
  \<comment> \<open>the three channels of the store exist and are three different channels\<close>
  "wf w =
     (ready (store w) < length (heap w) \<and> closed (store w) < length (heap w)
      \<and> notifyCh (store w) < length (heap w)
      \<and> ready (store w) \<noteq> closed (store w) \<and> notifyCh (store w) \<noteq> closed (store w)
      \<and> notifyCh (store w) \<noteq> ready (store w))"

definition inv :: "World \<Rightarrow> bool" where
  \<comment> \<open>what holds between any two operations on a store made by \<open>NewStore\<close>\<close>
  "inv w =
     (wf w
      \<and> (is_closed (heap w) (ready (store w)) \<longleftrightarrow> cards (store w) \<noteq> None)
      \<and> (is_closed (heap w) (notifyCh (store w)) \<longleftrightarrow> cards (store w) \<noteq> None))"

definition frame :: "World \<Rightarrow> World \<Rightarrow> bool" where
  \<comment> \<open>what a later state \<open>w'\<close> keeps of an earlier state \<open>w\<close>\<close>
  "frame w w' =
     (inv w' \<and> ready (store w') = ready (store w) \<and> closed (store w') = closed (store w)
      \<and> updateFrequency (store w') = updateFrequency (store w)
      \<and> length (heap w) \<le> length (heap w')
      \<and> (\<forall>n < length (heap w). heap w ! n \<longrightarrow> heap w' ! n)
      \<and> (\<forall>n < length (heap w). n \<noteq> ready (store w) \<and> n \<noteq> closed (store w)
            \<longrightarrow> heap w' ! n = heap w ! n)
      \<and> (cards (store w) \<noteq> None \<longrightarrow> cards (store w') \<noteq> None))"

text \<open>
  The grammar of the specification: the predicate group of a token is decided by its first
  two characters, and a colour token gives one predicate per valid letter.
\<close>

datatype token_kind = RuleToken | TypeToken | ColorToken | NotColorToken | NameToken

definition classify :: "gostring \<Rightarrow> token_kind" where
  "classify s =
     (if take 2 s = str ''o:'' then RuleToken
      else if take 2 s = str ''t:'' then TypeToken
      else if take 2 s = str ''c:'' then ColorToken
      else if take 2 s = str ''c!'' then NotColorToken
      else NameToken)"

definition colorLetters :: "case_table \<Rightarrow> gostring \<Rightarrow> gostring" where
  "colorLetters tbl s = filter validColor (ToLower tbl (drop 2 s))"

definition tokenColors :: "case_table \<Rightarrow> gostring \<Rightarrow> gostring list" where
  "tokenColors tbl s =
     (case classify s of
        ColorToken \<Rightarrow> map (\<lambda>c. [c]) (colorLetters tbl s)
      | NotColorToken \<Rightarrow> map (\<lambda>c. [0x21, c]) (colorLetters tbl s)
      | _ \<Rightarrow> [])"

definition matches :: "case_table \<Rightarrow> Cards \<Rightarrow> gostring \<Rightarrow> Card list" where
  \<comment> \<open>the cards of the catalog that match the query, in the order of the iteration\<close>
  "matches tbl c q = filter (Match tbl (ParseQuery tbl q)) (map snd (M c))"

text \<open>
  The keys under which one pass of the loop of \<open>generateNormalized\<close> files a card, and
  the card that a sequence of passes leaves under a key: the last one filed there.
  \<open>normRune\<close> is what \<open>normalizeCardName\<close> does to one character.
\<close>

definition normRune :: "rune \<Rightarrow> gostring" where
  "normRune r = (if r = 0xC6 then str ''Ae'' else if r = 0x2019 then [0x27] else [r])"

definition primaryKey :: "case_table \<Rightarrow> Card \<Rightarrow> gostring" where
  "primaryKey tbl crd = ToLower tbl (normalizeCardName (Name crd))"

definition joinedKey :: "case_table \<Rightarrow> Card \<Rightarrow> gostring \<Rightarrow> gostring" where
  "joinedKey tbl crd sep = ToLower tbl (Join (Names crd) sep)"

definition cardKeys :: "case_table \<Rightarrow> Card \<Rightarrow> gostring list" where
  "cardKeys tbl crd =
     (if Names crd \<noteq> []
      then [joinedKey tbl crd (str '' & ''), joinedKey tbl crd (str '' / ''),
            joinedKey tbl crd (str '' // '')]
      else [])
     @ [primaryKey tbl crd]"

definition lastFiled :: "case_table \<Rightarrow> gostring \<Rightarrow> Card list \<Rightarrow> Card option" where
  "lastFiled tbl k cs = List.find (\<lambda>c. k \<in> set (cardKeys tbl c)) (rev cs)"

section \<open>Sample data\<close>

definition latin1Lower :: case_table where
  \<comment> \<open>the rows of the case table for the Latin-1 Supplement block (U+00C0 to U+00DE
      without the multiplication sign); used for concrete evaluation only\<close>
  "latin1Lower r = (if 0xC0 \<le> r \<and> r \<le> 0xDE \<and> r \<noteq> 0xD7 then r + 0x20 else r)"

definition shock :: Card where
  "shock = \<lparr>Name = str ''Shock'', Names = [], Colors = [str ''Red''],
            Type = str ''Instant'', Text = str ''Shock deals 2 damage to any target.''\<rparr>"

definition quoted :: "string \<Rightarrow> gostring" where
  \<comment> \<open>a JSON string literal: the text between two quotation marks (U+0022)\<close>
  "quoted s = 0x22 # str s @ [0x22]"

definition shockFeed :: "nat list" where
  \<comment> \<open>a feed with the single card Shock\<close>
  "shockFeed =
     str ''{'' @ quoted ''Shock'' @ str '':{'' @ quoted ''name'' @ str '':'' @ quoted ''Shock''
     @ str '','' @ quoted ''colors'' @ str '':['' @ quoted ''Red'' @ str ''],''
     @ quoted ''type'' @ str '':'' @ quoted ''Instant'' @ str '','' @ quoted ''text'' @ str '':''
     @ quoted ''Shock deals 2 damage to any target.'' @ str ''}}''"

definition sampleUnmarshal :: unmarshal where
  \<comment> \<open>the decoder on the bodies of the examples: \<open>shockFeed\<close> decodes to its one entry,
      the other bodies used are not JSON\<close>
  "sampleUnmarshal b = (if b = shockFeed then Some [(str ''Shock'', shock)] else None)"

definition okClient :: http_client where
  "okClient et = Response 200 shockFeed False (str ''v1'')"

definition brokenClient :: http_client where
  "brokenClient et = Response 500 (str ''oops'') False []"

definition afterBrokenUpdate :: World where
  "afterBrokenUpdate =
     \<lparr>store = \<lparr>updateFrequency = 3600000000000, closed = 1, ready = 0, cards = None,
               etag = [], notifyCh = 2\<rparr>,
      heap = [False, False, False], watcher = Sleeping\<rparr>"

definition afterFirstUpdate :: World where
  "afterFirstUpdate =
     \<lparr>store = \<lparr>updateFrequency = 3600000000000, closed = 1, ready = 0,
               cards = Some (newCards latin1Lower [(str ''Shock'', shock)]),
               etag = str ''v1'', notifyCh = 3\<rparr>,
      heap = [True, False, False, True], watcher = Sleeping\<rparr>"

definition counterspell :: Card where
  "counterspell = \<lparr>Name = str ''Counterspell'', Names = [], Colors = [str ''Blue''],
                   Type = str ''Instant'', Text = str ''Counter target spell.''\<rparr>"

definition twoCards :: "(gostring \<times> Card) list" where
  "twoCards = [(str ''Shock'', shock), (str ''Counterspell'', counterspell)]"

definition shoutedShock :: Card where
  "shoutedShock = shock\<lparr>Name := str ''SHOCK''\<rparr>"

definition caseCollision :: "(gostring \<times> Card) list" where
  \<comment> \<open>a feed with two entries whose names differ in letter case only\<close>
  "caseCollision = [(str ''Shock'', shock), (str ''SHOCK'', shoutedShock)]"

definition fire :: Card where
  "fire = \<lparr>Name = str ''Fire'', Names = [str ''Fire'', str ''Ice''], Colors = [str ''Red''],
           Type = str ''Instant'', Text = []\<rparr>"

definition ice :: Card where
  "ice = \<lparr>Name = str ''Ice'', Names = [str ''Fire'', str ''Ice''], Colors = [str ''Blue''],
          Type = str ''Instant'', Text = []\<rparr>"

definition splitCards :: "(gostring \<times> Card) list" where
  \<comment> \<open>the two halves of a split card, each an entry with both component names\<close>
  "splitCards = [(str ''Fire'', fire), (str ''Ice'', ice)]"

definition halfA :: Card where
  "halfA = \<lparr>Name = str ''A'', Names = [str ''A'', str ''B''], Colors = [],
            Type = str ''Instant'', Text = []\<rparr>"

definition halfB :: Card where
  "halfB = \<lparr>Name = str ''B'', Names = [str ''A'', str ''B''], Colors = [],
            Type = str ''Instant'', Text = []\<rparr>"

definition twoHalves :: "(gostring \<times> Card) list" where
  \<comment> \<open>the same shape as \<open>splitCards\<close>, with the component names A and B\<close>
  "twoHalves = [(str ''A'', halfA), (str ''B'', halfB)]"

definition aetherVial :: Card where
  "aetherVial = \<lparr>Name = 0xC6 # str ''ther Vial'', Names = [], Colors = [],
                 Type = str ''Artifact'', Text = []\<rparr>"

definition ligatureSplit :: Card where
  \<comment> \<open>a card whose primary name and first component name have the ligature U+00C6\<close>
  "ligatureSplit = \<lparr>Name = 0xC6 # str '' // B'', Names = [[0xC6], str ''B''], Colors = [],
                    Type = str ''Instant'', Text = []\<rparr>"

definition lowerVial :: Card where
  \<comment> \<open>a card whose name is written with the lowercase ligature U+00E6\<close>
  "lowerVial = \<lparr>Name = 0xE6 # str ''ther vial'', Names = [], Colors = [],
                Type = str ''Artifact'', Text = []\<rparr>"

section \<open>Properties of the string functions\<close>

lemma str_simps: "str [] = []" "str (x # xs) = of_char x # str xs"
  by (simp_all add: str_def)

section \<open>Properties of Match\<close>

lemma shortColor_not_m: "shortColor col \<noteq> str ''m''" "str ''m'' \<noteq> shortColor col"
  by (simp_all add: shortColor_def str_simps)

lemma colorScan_eq:
  "colorScan cols qc neg
     = (if neg then qc \<notin> shortColor ` set cols else qc \<in> shortColor ` set cols)"
  by (induction cols) auto

lemma matchColors_all: "matchColors c qcs = list_all (colorStep c) qcs"
  by (induction qcs) auto

lemma matchNames_all: "matchNames tbl c qs = list_all (Contains (ToLower tbl (Name c))) qs"
  by (induction qs) auto

lemma matchRules_all: "matchRules tbl c qs = list_all (Contains (ToLower tbl (Text c))) qs"
  by (induction qs) auto

lemma matchTypes_all: "matchTypes tbl c qs = list_all (Contains (ToLower tbl (Type c))) qs"
  by (induction qs) auto

lemma Match_all:
  "Match tbl q c =
     (list_all (Contains (ToLower tbl (Name c))) (qName q)
      \<and> list_all (Contains (ToLower tbl (Text c))) (qRule q)
      \<and> list_all (Contains (ToLower tbl (Type c))) (qType q)
      \<and> list_all (colorStep c) (qColor q))"
  by (auto simp: Match_def matchNames_all matchRules_all matchTypes_all matchColors_all)

lemma colorStep_neg: "colorStep c (0x21 # l) = colorSpec c True l"
  by (auto simp: shortColor_not_m colorStep_def colorSpec_def colorScan_eq multicolored_def
      hasShort_def Let_def)

lemma colorStep_pos: "r \<noteq> 0x21 \<Longrightarrow> colorStep c (r # l) = colorSpec c False (r # l)"
  by (auto simp: shortColor_not_m colorStep_def colorSpec_def colorScan_eq multicolored_def
      hasShort_def Let_def)

lemma Fields_c_r: "Fields (str ''c!r'') = [str ''c!r'']"
  by (simp add: Fields_def str_simps IsSpace_def)

lemma addToken_c_r:
  "addToken tbl q (str ''c!r'') = q\<lparr>qColor := qColor q @ [str ''!r'']\<rparr>"
  by (simp add: addToken_def HasPrefix_def str_simps ToLower_def unicode_ToLower_def
      validColor_def)

lemma Parse_c_r: "ParseQuery tbl (str ''c!r'') = emptyQuery\<lparr>qColor := [str ''!r'']\<rparr>"
  by (simp add: ParseQuery_def Fields_c_r addToken_c_r emptyQuery_def)

lemma shortColor_r: "(shortColor col = str ''r'') = (col = str ''Red'')"
  by (simp add: shortColor_def str_simps)

lemma hasShort_r: "hasShort c (str ''r'') = (str ''Red'' \<in> set (Colors c))"
proof
  assume "hasShort c (str ''r'')"
  then obtain col where "col \<in> set (Colors c)" "shortColor col = str ''r''"
    unfolding hasShort_def by force
  then show "str ''Red'' \<in> set (Colors c)" by (simp add: shortColor_r)
next
  assume "str ''Red'' \<in> set (Colors c)"
  moreover have "shortColor (str ''Red'') = str ''r''" by (simp add: shortColor_r)
  ultimately show "hasShort c (str ''r'')" unfolding hasShort_def by force
qed

lemma Match_c_r:
  "Match tbl (ParseQuery tbl (str ''c!r'')) c = (str ''Red'' \<notin> set (Colors c))"
proof -
  have "str ''!r'' = 0x21 # str ''r''" and "str ''r'' \<noteq> str ''m''"
    by (simp_all add: str_simps)
  then show ?thesis
    by (simp add: Parse_c_r Match_all emptyQuery_def colorStep_neg colorSpec_def hasShort_r)
qed

text \<open>
  C3. \<open>Match\<close> succeeds exactly when every predicate of every group holds, so a colour
  predicate can only exclude a card. A negated predicate \<open>!l\<close> holds when the card is not
  multicoloured (for \<open>l = m\<close>) or has no colour of short form \<open>l\<close> (otherwise); a
  predicate that does not start with \<open>!\<close> holds when the card is multicoloured (for
  \<open>m\<close>) or has a colour of that short form (otherwise), the short forms being those of
  \<open>shortColor\<close>. The query \<open>c!r\<close> matches exactly the cards without the colour Red, the
  colourless ones included.
\<close>

theorem Match_color_group:
  "Match tbl q c =
     (list_all (Contains (ToLower tbl (Name c))) (qName q)
      \<and> list_all (Contains (ToLower tbl (Text c))) (qRule q)
      \<and> list_all (Contains (ToLower tbl (Type c))) (qType q)
      \<and> list_all (colorStep c) (qColor q))
   \<and> colorStep c (0x21 # l) = colorSpec c True l
   \<and> (r \<noteq> 0x21 \<longrightarrow> colorStep c (r # l) = colorSpec c False (r # l))
   \<and> shortColor (str ''White'') = str ''w'' \<and> shortColor (str ''Blue'') = str ''u''
   \<and> shortColor (str ''Black'') = str ''b'' \<and> shortColor (str ''Red'') = str ''r''
   \<and> shortColor (str ''Green'') = str ''g''
   \<and> Match tbl (ParseQuery tbl (str ''c!r'')) c = (str ''Red'' \<notin> set (Colors c))
   \<and> (Colors c = [] \<longrightarrow> Match tbl (ParseQuery tbl (str ''c!r'')) c)"
proof -
  have short: "shortColor (str ''White'') = str ''w''" "shortColor (str ''Blue'') = str ''u''"
    "shortColor (str ''Black'') = str ''b''" "shortColor (str ''Red'') = str ''r''"
    "shortColor (str ''Green'') = str ''g''"
    by (simp_all add: shortColor_def str_simps)
  show ?thesis
    using Match_all [of tbl q c] colorStep_neg [of c l] colorStep_pos [of r c l]
      Match_c_r [of tbl c] short
    by simp
qed

theorem Match_color_group_witness:
  "(0x72 :: rune) \<noteq> 0x21
   \<and> colorStep shock (0x72 # []) = colorSpec shock False (0x72 # [])
   \<and> colorSpec shock False (0x72 # [])
   \<and> Colors (shock\<lparr>Colors := []\<rparr>) = []
   \<and> Match latin1Lower (ParseQuery latin1Lower (str ''c!r'')) (shock\<lparr>Colors := []\<rparr>)
   \<and> \<not> Match latin1Lower (ParseQuery latin1Lower (str ''c!r'')) shock"
proof -
  have h: "(0x72 :: rune) \<noteq> 0x21" by simp
  have a: "colorStep shock (0x72 # []) = colorSpec shock False (0x72 # [])"
    using Match_color_group [of latin1Lower emptyQuery shock "[]" "0x72"] h by blast
  have b: "colorSpec shock False (0x72 # [])"
    by (simp add: colorSpec_def hasShort_def shock_def shortColor_def str_simps)
  have e: "Colors (shock\<lparr>Colors := []\<rparr>) = []" by simp
  have c: "Match latin1Lower (ParseQuery latin1Lower (str ''c!r'')) (shock\<lparr>Colors := []\<rparr>)"
    using Match_color_group [of latin1Lower emptyQuery "shock\<lparr>Colors := []\<rparr>" "[]" "0x72"] e
    by blast
  have d: "\<not> Match latin1Lower (ParseQuery latin1Lower (str ''c!r'')) shock"
    using Match_color_group [of latin1Lower emptyQuery shock "[]" "0x72"]
    by (simp add: shock_def)
  show ?thesis using h a b c d e by simp
qed

section \<open>Properties of the store\<close>

lemma update_closed: "i < length (xs :: bool list) \<Longrightarrow> xs ! i \<Longrightarrow> xs[i := True] = xs"
  by (simp add: list_update_same_conv)

lemma maybeUpdate_failed:
  "failed unm (hc (etag (store w))) \<Longrightarrow> maybeUpdate tbl unm hc w = Some w"
  by (cases "hc (etag (store w))") (auto simp: maybeUpdate_def)

lemma maybeUpdate_cases:
  "failed unm (hc (etag (store w)))
   \<or> (\<exists>b hdr m. hc (etag (store w)) = Response 200 b False hdr \<and> unm b = Some m)"
  by (cases "hc (etag (store w))") auto

lemma maybeUpdate_success:
  assumes "hc (etag (store w)) = Response 200 b False hdr" "unm b = Some m"
    "ready (store w) < length (heap w)"
  shows "maybeUpdate tbl unm hc w =
     Some (w\<lparr>store := (store w)\<lparr>etag := hdr, cards := Some (newCards tbl m),
                                 notifyCh := length (heap w)\<rparr>,
             heap := (heap w @ [True])[ready (store w) := True]\<rparr>)"
  using assms
  by (auto simp: maybeUpdate_def publish_def make_chan_def closeW_def close_chan_def
      signalReady_def is_closed_def nth_append Let_def list_update_append update_closed
      split: if_splits)

lemma NewStore_fields:
  "ready (store (NewStore h)) = length h" "closed (store (NewStore h)) = Suc (length h)"
  "notifyCh (store (NewStore h)) = Suc (Suc (length h))"
  "heap (NewStore h) = h @ [False, False, False]"
  "cards (store (NewStore h)) = None" "etag (store (NewStore h)) = []"
  "watcher (NewStore h) = Starting"
  by (simp_all add: NewStore_def make_chan_def)

lemma inv_NewStore: "inv (NewStore h)"
  by (simp add: inv_def wf_def NewStore_fields is_closed_def nth_append)

lemma frame_refl: "inv w \<Longrightarrow> frame w w"
  by (simp add: frame_def)

lemma frame_inv: "frame w w' \<Longrightarrow> inv w'"
  by (simp add: frame_def)

lemma frame_trans: "frame w w' \<Longrightarrow> frame w' w'' \<Longrightarrow> frame w w''"
  unfolding frame_def by (auto simp: less_le_trans)

lemma maybeUpdate_frame:
  assumes "inv w"
  shows "\<exists>w'. maybeUpdate tbl unm hc w = Some w' \<and> frame w w' \<and> watcher w' = watcher w"
proof -
  from maybeUpdate_cases [of unm hc w] show ?thesis
  proof
    assume "failed unm (hc (etag (store w)))"
    then show ?thesis using assms by (simp add: maybeUpdate_failed frame_refl)
  next
    assume "\<exists>b hdr m. hc (etag (store w)) = Response 200 b False hdr \<and> unm b = Some m"
    then obtain b hdr m where "hc (etag (store w)) = Response 200 b False hdr" "unm b = Some m"
      by blast
    then show ?thesis using assms
      by (auto simp: maybeUpdate_success [where tbl = tbl] inv_def frame_def wf_def
          is_closed_def nth_append nth_list_update)
  qed
qed

lemma loopTop_frame: "frame w w' \<Longrightarrow> frame w (loopTop w')"
  by (auto simp: frame_def loopTop_def inv_def wf_def)

lemma Close_open:
  "closed (store w) < length (heap w) \<Longrightarrow> \<not> is_closed (heap w) (closed (store w)) \<Longrightarrow>
     Close w = Some (None, w\<lparr>heap := (heap w)[closed (store w) := True]\<rparr>)"
  by (simp add: Close_def closeSelect_def closeDefault_def closeW_def close_chan_def
      is_closed_def)

lemma Close_closed:
  "is_closed (heap w) (closed (store w)) \<Longrightarrow> Close w = Some (Some (str ''already closed''), w)"
  by (simp add: Close_def closeSelect_def)

lemma Close_frame:
  assumes "inv w"
  shows "\<exists>e w'. Close w = Some (e, w') \<and> frame w w' \<and> watcher w' = watcher w
           \<and> is_closed (heap w') (closed (store w')) \<and> store w' = store w"
proof (cases "is_closed (heap w) (closed (store w))")
  case True
  then show ?thesis using assms by (simp add: Close_closed frame_refl)
next
  case False
  moreover have "closed (store w) < length (heap w)" using assms by (simp add: inv_def wf_def)
  ultimately show ?thesis using assms
    by (auto simp: Close_open frame_def inv_def wf_def is_closed_def nth_list_update)
qed

lemma step_frame:
  assumes "inv w"
  shows "\<exists>w'. step tbl unm w e = Some w' \<and> frame w w'"
proof (cases e)
  case CallClose
  then show ?thesis using Close_frame [OF assms] by (auto simp: step_def)
next
  case CallCards
  then show ?thesis using assms by (simp add: step_def frame_refl)
next
  case CallWaitForUpdate
  then show ?thesis using assms by (simp add: step_def frame_refl)
next
  case (Watch hc)
  obtain w' where w': "maybeUpdate tbl unm hc w = Some w'" "frame w w'"
    using maybeUpdate_frame [OF assms] by blast
  have ex: "frame w (w\<lparr>watcher := Exited\<rparr>)"
    using assms by (simp add: frame_def inv_def wf_def)
  show ?thesis
    using Watch w' ex assms
    by (cases "watcher w") (auto simp: step_def watch_step_def loopTop_frame frame_refl)
next
  case WatchClosed
  have "frame w (w\<lparr>watcher := Exited\<rparr>)"
    using assms by (simp add: frame_def inv_def wf_def)
  then show ?thesis using WatchClosed assms
    by (simp add: step_def watch_closed_def frame_refl)
qed

lemma run_frame: "inv w \<Longrightarrow> \<exists>w'. run tbl unm w evs = Some w' \<and> frame w w'"
proof (induction evs arbitrary: w)
  case Nil
  then show ?case by (simp add: frame_refl)
next
  case (Cons e es)
  obtain w1 where w1: "step tbl unm w e = Some w1" "frame w w1"
    using step_frame [OF Cons.prems] by blast
  obtain w2 where w2: "run tbl unm w1 es = Some w2" "frame w1 w2"
    using Cons.IH [OF frame_inv [OF w1(2)]] by blast
  show ?case using w1 w2 frame_trans by auto
qed

lemma sample_bodies:
  "str ''oops'' \<noteq> shockFeed"
  "sampleUnmarshal shockFeed = Some [(str ''Shock'', shock)]"
  by (simp_all add: shockFeed_def quoted_def str_simps sampleUnmarshal_def)

text \<open>
  C2. A refresh cycle that fails (transport failure, status 304, any status other than 200,
  a failed read of the body, an undecodable body) returns with the state as it was: the
  catalog, the cache-validator token, the update channel and the state of every channel
  are unchanged, so \<open>Cards\<close> and every handle of \<open>WaitForUpdate\<close> see what they saw
  before, and no error reaches them.
\<close>

theorem maybeUpdate_failure_keeps_state:
  assumes "failed unm (hc (etag (store w)))"
  shows "\<exists>w'. maybeUpdate tbl unm hc w = Some w' \<and> w' = w
           \<and> cards (store w') = cards (store w) \<and> etag (store w') = etag (store w)
           \<and> notifyCh (store w') = notifyCh (store w) \<and> heap w' = heap w
           \<and> Store_Cards w' = Store_Cards w \<and> handleValue w' n = handleValue w n"
  using assms by (simp add: maybeUpdate_failed)

theorem maybeUpdate_failure_keeps_state_witness:
  "failed sampleUnmarshal (brokenClient (etag (store (NewStore []))))
   \<and> failed sampleUnmarshal (Response 200 (str ''oops'') False [])
   \<and> maybeUpdate latin1Lower sampleUnmarshal brokenClient (NewStore []) = Some (NewStore [])
   \<and> Store_Cards (NewStore []) = Blocks"
proof -
  have h: "failed sampleUnmarshal (brokenClient (etag (store (NewStore []))))"
    by (simp add: brokenClient_def)
  have "failed sampleUnmarshal (Response 200 (str ''oops'') False [])"
    by (simp add: sampleUnmarshal_def sample_bodies)
  moreover have "Store_Cards (NewStore []) = Blocks"
    by (simp add: Store_Cards_def NewStore_fields is_closed_def)
  ultimately show ?thesis
    using h maybeUpdate_failure_keeps_state
      [of sampleUnmarshal brokenClient "NewStore []" latin1Lower 0]
    by simp
qed

lemma closed_NewStore:
  "closed (store (NewStore h)) < length (heap (NewStore h))"
  "\<not> is_closed (heap (NewStore h)) (closed (store (NewStore h)))"
  "(heap (NewStore h))[closed (store (NewStore h)) := True] = h @ [False, True, False]"
  by (simp_all add: NewStore_fields is_closed_def nth_append list_update_append)

lemma Close_NewStore:
  "Close (NewStore h) = Some (None, (NewStore h)\<lparr>heap := h @ [False, True, False]\<rparr>)"
  using Close_open [OF closed_NewStore(1,2), of h] by (simp add: closed_NewStore(3))

lemma closeSelect_NewStore:
  "\<not> closeSelect (NewStore h)"
  "closeSelect ((NewStore h)\<lparr>heap := h @ [False, True, False]\<rparr>)"
  by (simp_all add: closeSelect_def NewStore_fields is_closed_def nth_append)

lemma closeDefault_NewStore:
  "closeDefault (NewStore h) = Some ((NewStore h)\<lparr>heap := h @ [False, True, False]\<rparr>)"
  "closeDefault ((NewStore h)\<lparr>heap := h @ [False, True, False]\<rparr>) = None"
  by (simp_all add: closeDefault_def closeW_def close_chan_def NewStore_fields nth_append
      list_update_append)

text \<open>
  C5 (the code does not do this for calls that overlap). \<open>Close\<close> takes no lock between
  its \<open>select\<close> and \<open>close(s.closed)\<close>. When two calls on a new store both run the
  \<open>select\<close> before either closes the channel, both take the \<open>default\<close> case, and the
  second \<open>close\<close> panics: no call returns the error \<open>already closed\<close>. Calls that do not
  overlap behave as the contract says: the first returns no error, and after it, whatever
  else happens, a call returns the error \<open>already closed\<close>.
\<close>

theorem Close_overlapping_calls_panic:
  "closeRun (NewStore h) [AtSelect, AtSelect] [0, 1, 0, 1] = None
   \<and> closeRun (NewStore h) [AtSelect, AtSelect] [0, 1, 1, 0] = None
   \<and> closeRun (NewStore h) [AtSelect, AtSelect] [0, 0, 1, 1]
       = Some ((NewStore h)\<lparr>heap := h @ [False, True, False]\<rparr>,
               [Returned None, Returned (Some (str ''already closed''))])
   \<and> Close (NewStore h) = Some (None, (NewStore h)\<lparr>heap := h @ [False, True, False]\<rparr>)
   \<and> (\<forall>evs. \<exists>w. run tbl unm ((NewStore h)\<lparr>heap := h @ [False, True, False]\<rparr>) evs = Some w
          \<and> Close w = Some (Some (str ''already closed''), w))"
proof -
  let ?w1 = "(NewStore h)\<lparr>heap := h @ [False, True, False]\<rparr>"
  have a: "closeRun (NewStore h) [AtSelect, AtSelect] [0, 1, 0, 1] = None"
    by (simp add: closeSelect_NewStore closeDefault_NewStore)
  have b: "closeRun (NewStore h) [AtSelect, AtSelect] [0, 1, 1, 0] = None"
    by (simp add: closeSelect_NewStore closeDefault_NewStore)
  have c: "closeRun (NewStore h) [AtSelect, AtSelect] [0, 0, 1, 1]
       = Some (?w1, [Returned None, Returned (Some (str ''already closed''))])"
    by (simp add: closeSelect_NewStore closeDefault_NewStore)
  have i1: "inv ?w1"
    using inv_NewStore [of h]
    by (simp add: inv_def wf_def NewStore_fields is_closed_def nth_append)
  have c1: "is_closed (heap ?w1) (closed (store ?w1))"
    by (simp add: NewStore_fields is_closed_def nth_append)
  have d: "\<exists>w. run tbl unm ?w1 evs = Some w
          \<and> Close w = Some (Some (str ''already closed''), w)" for evs
  proof -
    from run_frame [OF i1, of tbl unm evs] obtain w where
      w: "run tbl unm ?w1 evs = Some w \<and> frame ?w1 w" ..
    have "closed (store ?w1) < length (heap ?w1)" by (simp add: NewStore_fields)
    then have "is_closed (heap w) (closed (store w))"
      using w c1 by (auto simp: frame_def is_closed_def)
    then have "Close w = Some (Some (str ''already closed''), w)" by (rule Close_closed)
    then show ?thesis using w by blast
  qed
  show ?thesis
    apply (rule conjI [OF a])
    apply (rule conjI [OF b])
    apply (rule conjI [OF c])
    apply (rule conjI [OF Close_NewStore])
    apply (rule allI)
    apply (rule d)
    done
qed

lemma Store_Cards_inv:
  "inv w \<Longrightarrow> Store_Cards w = (case cards (store w) of None \<Rightarrow> Blocks | Some c \<Rightarrow> Returns (Some c))"
  by (auto simp: inv_def Store_Cards_def split: option.splits)

lemma maybeUpdate_cards:
  assumes "inv w"
  shows "\<exists>w'. maybeUpdate tbl unm hc w = Some w' \<and> watcher w' = watcher w \<and> inv w'
          \<and> (cards (store w') \<noteq> None \<longleftrightarrow>
               cards (store w) \<noteq> None \<or> \<not> failed unm (hc (etag (store w))))"
proof -
  obtain w' where w': "maybeUpdate tbl unm hc w = Some w'" "frame w w'" "watcher w' = watcher w"
    using maybeUpdate_frame [OF assms] by blast
  from maybeUpdate_cases [of unm hc w] show ?thesis
  proof
    assume "failed unm (hc (etag (store w)))"
    then show ?thesis using assms by (simp add: maybeUpdate_failed)
  next
    assume "\<exists>b hdr m. hc (etag (store w)) = Response 200 b False hdr \<and> unm b = Some m"
    then obtain b hdr m where ok: "hc (etag (store w)) = Response 200 b False hdr" "unm b = Some m"
      by blast
    have "ready (store w) < length (heap w)" using assms by (simp add: inv_def wf_def)
    from maybeUpdate_success [where hc = hc and w = w and tbl = tbl and unm = unm and b = b and m = m
        and hdr = hdr, OF ok this] w'(1)
    have "cards (store w') = Some (newCards tbl m)" by auto
    then have c: "cards (store w') \<noteq> None" by simp
    have f: "\<not> failed unm (hc (etag (store w)))" using ok by simp
    have "inv w'" using w'(2) by (rule frame_inv)
    then show ?thesis using w'(1,3) c f by blast
  qed
qed

lemma loopTop_keeps: "inv w \<Longrightarrow> inv (loopTop w)" "cards (store (loopTop w)) = cards (store w)"
  by (auto simp: loopTop_def inv_def wf_def)

lemma step_cards:
  assumes "inv w"
  shows "\<exists>w'. step tbl unm w e = Some w' \<and> inv w'
          \<and> (cards (store w') \<noteq> None \<longleftrightarrow>
               cards (store w) \<noteq> None
               \<or> (\<exists>hc. e = Watch hc \<and> refreshes w \<and> \<not> failed unm (hc (etag (store w)))))"
proof (cases e)
  case CallClose
  then show ?thesis using Close_frame [OF assms] by (auto simp: step_def frame_inv)
next
  case CallCards
  then show ?thesis using assms by (simp add: step_def)
next
  case CallWaitForUpdate
  then show ?thesis using assms by (simp add: step_def)
next
  case (Watch hc)
  obtain w' where w': "maybeUpdate tbl unm hc w = Some w'" "inv w'"
    "cards (store w') \<noteq> None \<longleftrightarrow> cards (store w) \<noteq> None \<or> \<not> failed unm (hc (etag (store w)))"
    using maybeUpdate_cards [OF assms] by blast
  have ex: "inv (w\<lparr>watcher := Exited\<rparr>)" using assms by (simp add: inv_def wf_def)
  show ?thesis
  proof (cases "watcher w")
    case Starting
    then show ?thesis using Watch w' by (simp add: step_def watch_step_def refreshes_def loopTop_keeps)
  next
    case Sleeping
    then show ?thesis using Watch w' ex
      by (simp add: step_def watch_step_def refreshes_def loopTop_keeps)
  next
    case Exited
    then show ?thesis using Watch assms by (simp add: step_def watch_step_def refreshes_def)
  qed
next
  case WatchClosed
  have "inv (w\<lparr>watcher := Exited\<rparr>)" using assms by (simp add: inv_def wf_def)
  then show ?thesis using WatchClosed assms by (simp add: step_def watch_closed_def)
qed

lemma Blocks_iff: "inv w \<Longrightarrow> (Store_Cards w = Blocks) = (cards (store w) = None)"
  by (auto simp: Store_Cards_inv split: option.splits)

text \<open>
  C6. On a new store \<open>Cards\<close> blocks. In every state the store reaches, \<open>Cards\<close> blocks
  exactly while no catalog has been published and otherwise returns the current catalog,
  which is not nil: the channel \<open>ready\<close> is closed if and only if the catalog reference
  is set (part of \<open>inv\<close>). Every operation keeps \<open>inv\<close>, and \<open>Cards\<close> stops blocking
  exactly at a refresh by the background task that succeeds; it never blocks again.
\<close>

theorem Cards_blocks_until_first_success:
  "Store_Cards (NewStore h) = Blocks
   \<and> (\<forall>evs. \<exists>w. run tbl unm (NewStore h) evs = Some w \<and> inv w
         \<and> Store_Cards w
             = (case cards (store w) of None \<Rightarrow> Blocks | Some c \<Rightarrow> Returns (Some c)))
   \<and> (\<forall>w e. inv w \<longrightarrow> (\<exists>w'. step tbl unm w e = Some w' \<and> inv w'
         \<and> (Store_Cards w' \<noteq> Blocks \<longleftrightarrow>
              Store_Cards w \<noteq> Blocks
              \<or> (\<exists>hc. e = Watch hc \<and> refreshes w \<and> \<not> failed unm (hc (etag (store w)))))))"
proof -
  have a: "Store_Cards (NewStore h) = Blocks"
    using Blocks_iff [OF inv_NewStore, of h] by (simp add: NewStore_fields)
  have b: "\<exists>w. run tbl unm (NewStore h) evs = Some w \<and> inv w
         \<and> Store_Cards w
             = (case cards (store w) of None \<Rightarrow> Blocks | Some c \<Rightarrow> Returns (Some c))" for evs
  proof -
    obtain w where w: "run tbl unm (NewStore h) evs = Some w" "frame (NewStore h) w"
      using run_frame [OF inv_NewStore] by blast
    have i: "inv w" using w(2) by (rule frame_inv)
    show ?thesis using w(1) i Store_Cards_inv [OF i] by blast
  qed
  have c: "inv w \<longrightarrow> (\<exists>w'. step tbl unm w e = Some w' \<and> inv w'
         \<and> (Store_Cards w' \<noteq> Blocks \<longleftrightarrow>
              Store_Cards w \<noteq> Blocks
              \<or> (\<exists>hc. e = Watch hc \<and> refreshes w \<and> \<not> failed unm (hc (etag (store w))))))" for w e
  proof
    assume i: "inv w"
    from step_cards [OF i, of tbl unm e] obtain w' where
      w': "step tbl unm w e = Some w' \<and> inv w'
          \<and> (cards (store w') \<noteq> None \<longleftrightarrow> cards (store w) \<noteq> None
               \<or> (\<exists>hc. e = Watch hc \<and> refreshes w \<and> \<not> failed unm (hc (etag (store w)))))" ..
    then have i': "inv w'" by simp
    have s1: "(Store_Cards w' \<noteq> Blocks) = (cards (store w') \<noteq> None)"
      using Blocks_iff [OF i'] by simp
    have s2: "(Store_Cards w \<noteq> Blocks) = (cards (store w) \<noteq> None)"
      using Blocks_iff [OF i] by simp
    have "step tbl unm w e = Some w' \<and> inv w'
         \<and> (Store_Cards w' \<noteq> Blocks \<longleftrightarrow>
              Store_Cards w \<noteq> Blocks
              \<or> (\<exists>hc. e = Watch hc \<and> refreshes w \<and> \<not> failed unm (hc (etag (store w)))))"
      unfolding s1 s2 by (rule w')
    then show "\<exists>w'. step tbl unm w e = Some w' \<and> inv w'
         \<and> (Store_Cards w' \<noteq> Blocks \<longleftrightarrow>
              Store_Cards w \<noteq> Blocks
              \<or> (\<exists>hc. e = Watch hc \<and> refreshes w \<and> \<not> failed unm (hc (etag (store w)))))"
      by (rule exI)
  qed
  show ?thesis
    apply (intro conjI allI)
      apply (rule a)
     apply (rule b)
    apply (rule c)
    done
qed

lemma NewStore_Nil:
  "NewStore [] = \<lparr>store = \<lparr>updateFrequency = 3600000000000, closed = 1, ready = 0, cards = None,
               etag = [], notifyCh = 2\<rparr>,
      heap = [False, False, False], watcher = Starting\<rparr>"
  by (simp add: NewStore_def make_chan_def)

lemma step_broken:
  "step latin1Lower sampleUnmarshal (NewStore []) (Watch brokenClient) = Some afterBrokenUpdate"
  by (simp add: step_def watch_step_def NewStore_Nil maybeUpdate_def brokenClient_def
      loopTop_def afterBrokenUpdate_def)

lemma step_ok:
  "step latin1Lower sampleUnmarshal afterBrokenUpdate (Watch okClient) = Some afterFirstUpdate"
  by (simp add: step_def watch_step_def maybeUpdate_def okClient_def loopTop_def
      afterBrokenUpdate_def afterFirstUpdate_def sample_bodies is_closed_def publish_def
      make_chan_def closeW_def close_chan_def signalReady_def)

lemma step_ok0:
  "step latin1Lower sampleUnmarshal (NewStore []) (Watch okClient) = Some afterFirstUpdate"
  by (simp add: step_def watch_step_def maybeUpdate_def okClient_def loopTop_def NewStore_Nil
      afterFirstUpdate_def sample_bodies is_closed_def publish_def make_chan_def closeW_def
      close_chan_def signalReady_def)

lemma run_broken:
  "run latin1Lower sampleUnmarshal (NewStore []) [Watch brokenClient] = Some afterBrokenUpdate"
  by (simp add: step_broken)

lemma run_broken_ok:
  "run latin1Lower sampleUnmarshal (NewStore []) [Watch brokenClient, Watch okClient]
     = Some afterFirstUpdate"
  by (simp add: step_broken step_ok)

theorem Cards_blocks_until_first_success_witness:
  "inv (NewStore [])
   \<and> (\<exists>w. run latin1Lower sampleUnmarshal (NewStore []) [Watch brokenClient] = Some w
          \<and> Store_Cards w = Blocks)
   \<and> (\<exists>w. run latin1Lower sampleUnmarshal (NewStore []) [Watch brokenClient, Watch okClient]
            = Some w
          \<and> Store_Cards w = Returns (Some (newCards latin1Lower [(str ''Shock'', shock)])))
   \<and> (\<exists>w'. step latin1Lower sampleUnmarshal (NewStore []) (Watch okClient) = Some w'
          \<and> Store_Cards w' \<noteq> Blocks)"
proof -
  note T = Cards_blocks_until_first_success [of "[]" latin1Lower sampleUnmarshal]
  have i: "inv (NewStore [])" by (rule inv_NewStore)
  from T have "\<exists>w. run latin1Lower sampleUnmarshal (NewStore []) [Watch brokenClient] = Some w
      \<and> inv w
      \<and> Store_Cards w = (case cards (store w) of None \<Rightarrow> Blocks | Some c \<Rightarrow> Returns (Some c))"
    by blast
  then have a: "\<exists>w. run latin1Lower sampleUnmarshal (NewStore []) [Watch brokenClient] = Some w
          \<and> Store_Cards w = Blocks"
    unfolding run_broken by (simp add: afterBrokenUpdate_def)
  from T have "\<exists>w. run latin1Lower sampleUnmarshal (NewStore []) [Watch brokenClient, Watch okClient]
        = Some w \<and> inv w
      \<and> Store_Cards w = (case cards (store w) of None \<Rightarrow> Blocks | Some c \<Rightarrow> Returns (Some c))"
    by blast
  then have b: "\<exists>w. run latin1Lower sampleUnmarshal (NewStore []) [Watch brokenClient, Watch okClient]
            = Some w
          \<and> Store_Cards w = Returns (Some (newCards latin1Lower [(str ''Shock'', shock)]))"
    unfolding run_broken_ok by (simp add: afterFirstUpdate_def)
  have r: "refreshes (NewStore [])" by (simp add: refreshes_def NewStore_fields)
  have f: "\<not> failed sampleUnmarshal (okClient (etag (store (NewStore []))))"
    by (simp add: okClient_def sample_bodies)
  from T i have "\<exists>w'. step latin1Lower sampleUnmarshal (NewStore []) (Watch okClient) = Some w'
      \<and> inv w'
      \<and> (Store_Cards w' \<noteq> Blocks \<longleftrightarrow> Store_Cards (NewStore []) \<noteq> Blocks
            \<or> (\<exists>hc. Watch okClient = Watch hc \<and> refreshes (NewStore [])
                  \<and> \<not> failed sampleUnmarshal (hc (etag (store (NewStore []))))))"
    by blast
  then have c: "\<exists>w'. step latin1Lower sampleUnmarshal (NewStore []) (Watch okClient) = Some w'
          \<and> Store_Cards w' \<noteq> Blocks"
    using r f by auto
  show ?thesis using i a b c by blast
qed

lemma handle_now: "inv w \<Longrightarrow> handleValue w (WaitForUpdate w) = Store_Cards w"
  by (auto simp: inv_def handleValue_def WaitForUpdate_def Store_Cards_def)

lemma handle_never:
  assumes "inv w1" "frame w1 w2" "\<not> is_closed (heap w1) (notifyCh (store w1))"
  shows "handleValue w2 (notifyCh (store w1)) = Blocks"
proof -
  let ?n = "notifyCh (store w1)"
  have n: "?n < length (heap w1)" "?n \<noteq> ready (store w1)" "?n \<noteq> closed (store w1)"
    using assms(1) by (simp_all add: inv_def wf_def)
  then have "heap w2 ! ?n = heap w1 ! ?n" using assms(2) by (simp add: frame_def)
  moreover have "\<not> heap w1 ! ?n" using assms(3) n(1) by (simp add: is_closed_def)
  ultimately show ?thesis by (simp add: handleValue_def is_closed_def)
qed

lemma handle_at_once_or_never:
  assumes "inv w1" "frame w1 w2"
  shows "handleValue w2 (WaitForUpdate w1) = Blocks
         \<or> (\<exists>c. handleValue w1 (WaitForUpdate w1) = Returns (Some c))"
proof (cases "is_closed (heap w1) (notifyCh (store w1))")
  case True
  then have "cards (store w1) \<noteq> None" using assms(1) by (simp add: inv_def)
  then show ?thesis using assms(1) by (auto simp: handle_now Store_Cards_inv)
next
  case False
  then show ?thesis using handle_never [OF assms] by (simp add: WaitForUpdate_def)
qed

text \<open>
  C1 (the code does not do this). \<open>maybeUpdate\<close> replaces \<open>s.notifyCh\<close> by a new channel and
  then closes that new channel; the channel of the generation before is never closed. So a
  handle of \<open>WaitForUpdate\<close> has, when it is made, the value \<open>Cards\<close> has at that moment,
  and if it blocks then it blocks in every later state: it is resolved at once or never.
  The handle made on a new store blocks after every sequence of operations, while a
  handle made after a refresh returns the current catalog with no further refresh.
\<close>

theorem WaitForUpdate_resolves_at_once_or_never:
  "(\<forall>evs1 evs2. \<exists>w1 w2. run tbl unm (NewStore h) evs1 = Some w1
        \<and> run tbl unm w1 evs2 = Some w2
        \<and> handleValue w1 (WaitForUpdate w1) = Store_Cards w1
        \<and> (handleValue w2 (WaitForUpdate w1) = Blocks
            \<or> (\<exists>c. handleValue w1 (WaitForUpdate w1) = Returns (Some c))))
   \<and> (\<forall>evs. \<exists>w. run tbl unm (NewStore h) evs = Some w
        \<and> handleValue w (WaitForUpdate (NewStore h)) = Blocks)
   \<and> (\<exists>w. run latin1Lower sampleUnmarshal (NewStore []) [CallWaitForUpdate, Watch okClient]
            = Some w
        \<and> Store_Cards w = Returns (Some (newCards latin1Lower [(str ''Shock'', shock)]))
        \<and> handleValue w (WaitForUpdate (NewStore [])) = Blocks
        \<and> handleValue w (WaitForUpdate w)
            = Returns (Some (newCards latin1Lower [(str ''Shock'', shock)])))"
proof -
  have a: "\<exists>w1 w2. run tbl unm (NewStore h) evs1 = Some w1
        \<and> run tbl unm w1 evs2 = Some w2
        \<and> handleValue w1 (WaitForUpdate w1) = Store_Cards w1
        \<and> (handleValue w2 (WaitForUpdate w1) = Blocks
            \<or> (\<exists>c. handleValue w1 (WaitForUpdate w1) = Returns (Some c)))" for evs1 evs2
  proof -
    from run_frame [OF inv_NewStore, of tbl unm h evs1] obtain w1 where
      w1: "run tbl unm (NewStore h) evs1 = Some w1 \<and> frame (NewStore h) w1" ..
    then have i1: "inv w1" using frame_inv by blast
    from run_frame [OF i1, of tbl unm evs2] obtain w2 where
      w2: "run tbl unm w1 evs2 = Some w2 \<and> frame w1 w2" ..
    have "run tbl unm (NewStore h) evs1 = Some w1
        \<and> run tbl unm w1 evs2 = Some w2
        \<and> handleValue w1 (WaitForUpdate w1) = Store_Cards w1
        \<and> (handleValue w2 (WaitForUpdate w1) = Blocks
            \<or> (\<exists>c. handleValue w1 (WaitForUpdate w1) = Returns (Some c)))"
      using w1 w2 handle_now [OF i1] handle_at_once_or_never [OF i1, of w2] by simp
    then show ?thesis by blast
  qed
  have b: "\<exists>w. run tbl unm (NewStore h) evs = Some w
        \<and> handleValue w (WaitForUpdate (NewStore h)) = Blocks" for evs
  proof -
    from run_frame [OF inv_NewStore, of tbl unm h evs] obtain w where
      w: "run tbl unm (NewStore h) evs = Some w \<and> frame (NewStore h) w" ..
    have "\<not> is_closed (heap (NewStore h)) (notifyCh (store (NewStore h)))"
      by (simp add: NewStore_fields is_closed_def nth_append)
    from handle_never [OF inv_NewStore _ this, of w] w show ?thesis
      by (auto simp: WaitForUpdate_def)
  qed
  have c: "\<exists>w. run latin1Lower sampleUnmarshal (NewStore []) [CallWaitForUpdate, Watch okClient]
            = Some w
        \<and> Store_Cards w = Returns (Some (newCards latin1Lower [(str ''Shock'', shock)]))
        \<and> handleValue w (WaitForUpdate (NewStore [])) = Blocks
        \<and> handleValue w (WaitForUpdate w)
            = Returns (Some (newCards latin1Lower [(str ''Shock'', shock)]))"
  proof -
    have "run latin1Lower sampleUnmarshal (NewStore []) [CallWaitForUpdate, Watch okClient]
            = Some afterFirstUpdate"
      using step_ok0 by (simp add: step_def)
    moreover have "Store_Cards afterFirstUpdate
        = Returns (Some (newCards latin1Lower [(str ''Shock'', shock)]))"
      by (simp add: Store_Cards_def afterFirstUpdate_def is_closed_def)
    moreover have "handleValue afterFirstUpdate (WaitForUpdate (NewStore [])) = Blocks"
      by (simp add: handleValue_def WaitForUpdate_def NewStore_Nil afterFirstUpdate_def
          is_closed_def)
    moreover have "handleValue afterFirstUpdate (WaitForUpdate afterFirstUpdate)
        = Returns (Some (newCards latin1Lower [(str ''Shock'', shock)]))"
      by (simp add: handleValue_def WaitForUpdate_def Store_Cards_def afterFirstUpdate_def
          is_closed_def)
    ultimately show ?thesis by blast
  qed
  show ?thesis
    apply (intro conjI allI)
      apply (rule a)
     apply (rule b)
    apply (rule c)
    done
qed

section \<open>Properties of ParseQuery\<close>

lemma HasPrefix_take: "HasPrefix s p = (take (length p) s = p)"
  unfolding HasPrefix_def prefix_def by (metis append_eq_conv_conj append_take_drop_id)

lemma HasPrefix_two: "HasPrefix s [a, b] = (take 2 s = [a, b])"
  by (simp add: HasPrefix_take numeral_2_eq_2)

lemma lit2: "str ''o:'' = [0x6F, 0x3A]" "str ''t:'' = [0x74, 0x3A]" "str ''c:'' = [0x63, 0x3A]"
  "str ''c!'' = [0x63, 0x21]"
  by (simp_all add: str_simps)

lemma HasPrefix_classify:
  "HasPrefix s (str ''o:'') = (classify s = RuleToken)"
  "HasPrefix s (str ''t:'') = (classify s = TypeToken)"
  "HasPrefix s (str ''c:'') = (classify s = ColorToken)"
  "HasPrefix s (str ''c!'') = (classify s = NotColorToken)"
  by (simp_all add: HasPrefix_two classify_def lit2)

lemma bang_letter: "str ''!'' @ [c] = [0x21, c]"
  by (simp add: str_simps)

lemma addToken_fields:
  "qRule (addToken tbl q t)
     = qRule q @ (if classify t = RuleToken then [ToLower tbl (drop 2 t)] else [])"
  "qType (addToken tbl q t)
     = qType q @ (if classify t = TypeToken then [ToLower tbl (drop 2 t)] else [])"
  "qColor (addToken tbl q t) = qColor q @ tokenColors tbl t"
  "qName (addToken tbl q t) = qName q @ (if classify t = NameToken then [ToLower tbl t] else [])"
  by (cases "classify t"; simp add: addToken_def HasPrefix_classify tokenColors_def
      colorLetters_def bang_letter)+

lemma foldl_addToken:
  "qRule (foldl (addToken tbl) q ts)
     = qRule q @ map (\<lambda>t. ToLower tbl (drop 2 t)) (filter (\<lambda>t. classify t = RuleToken) ts)"
  "qType (foldl (addToken tbl) q ts)
     = qType q @ map (\<lambda>t. ToLower tbl (drop 2 t)) (filter (\<lambda>t. classify t = TypeToken) ts)"
  "qColor (foldl (addToken tbl) q ts) = qColor q @ concat (map (tokenColors tbl) ts)"
  "qName (foldl (addToken tbl) q ts)
     = qName q @ map (ToLower tbl) (filter (\<lambda>t. classify t = NameToken) ts)"
  by (induction ts arbitrary: q; simp add: addToken_fields)+

lemma fieldsFrom_concat:
  "concat (fieldsFrom cur s) = cur @ filter (\<lambda>r. \<not> IsSpace r) s"
  by (induction cur s rule: fieldsFrom.induct) auto

lemma fieldsFrom_nonempty: "[] \<notin> set (fieldsFrom cur s)"
  by (induction cur s rule: fieldsFrom.induct) auto

lemma fieldsFrom_nospace:
  "\<not> list_ex IsSpace cur \<Longrightarrow> t \<in> set (fieldsFrom cur s) \<Longrightarrow> \<not> list_ex IsSpace t"
  by (induction cur s rule: fieldsFrom.induct) (auto split: if_splits)

lemma Fields_x_foo: "Fields (str ''x:foo'') = [str ''x:foo'']"
  by (simp add: Fields_def str_simps IsSpace_def)

lemma addToken_x_foo:
  "addToken tbl q (str ''x:foo'') = q\<lparr>qName := qName q @ [str ''x:foo'']\<rparr>"
  by (simp add: addToken_def HasPrefix_def str_simps ToLower_def unicode_ToLower_def)

lemma Parse_x_foo: "ParseQuery tbl (str ''x:foo'') = emptyQuery\<lparr>qName := [str ''x:foo'']\<rparr>"
  by (simp add: ParseQuery_def Fields_x_foo addToken_x_foo emptyQuery_def)

lemma classify_name:
  "(classify t = NameToken)
     = (\<not> HasPrefix t (str ''o:'') \<and> \<not> HasPrefix t (str ''t:'')
        \<and> \<not> HasPrefix t (str ''c:'') \<and> \<not> HasPrefix t (str ''c!''))"
  by (cases "classify t") (simp_all add: HasPrefix_classify)

text \<open>
  C9. \<open>ParseQuery\<close> puts every field of \<open>strings.Fields\<close> into exactly one group. The
  tokens with prefix \<open>o:\<close> give the rule predicates and those with prefix \<open>t:\<close> the type
  predicates, both lowercased and without the prefix; a token with prefix \<open>c:\<close> gives one
  colour predicate for each of its lowercased letters that is one of w, u, b, r, g, m, a
  token with prefix \<open>c!\<close> the same predicates with \<open>!\<close> in front, and the other letters
  give nothing; every other token, \<open>x:foo\<close> for one, is a lowercased name predicate. The
  four prefixes exclude each other, so the order of the cases plays no role. The fields are
  the maximal runs of non-space characters of the query.
\<close>

theorem ParseQuery_groups:
  "qRule (ParseQuery tbl s)
     = map (\<lambda>t. ToLower tbl (drop 2 t)) (filter (\<lambda>t. classify t = RuleToken) (Fields s))
   \<and> qType (ParseQuery tbl s)
     = map (\<lambda>t. ToLower tbl (drop 2 t)) (filter (\<lambda>t. classify t = TypeToken) (Fields s))
   \<and> qColor (ParseQuery tbl s) = concat (map (tokenColors tbl) (Fields s))
   \<and> qName (ParseQuery tbl s)
     = map (ToLower tbl) (filter (\<lambda>t. classify t = NameToken) (Fields s))
   \<and> HasPrefix t (str ''o:'') = (classify t = RuleToken)
   \<and> HasPrefix t (str ''t:'') = (classify t = TypeToken)
   \<and> HasPrefix t (str ''c:'') = (classify t = ColorToken)
   \<and> HasPrefix t (str ''c!'') = (classify t = NotColorToken)
   \<and> (classify t = NameToken)
     = (\<not> HasPrefix t (str ''o:'') \<and> \<not> HasPrefix t (str ''t:'')
        \<and> \<not> HasPrefix t (str ''c:'') \<and> \<not> HasPrefix t (str ''c!''))
   \<and> validColor c = (c \<in> {0x77, 0x75, 0x62, 0x72, 0x67, 0x6D})
   \<and> concat (Fields s) = filter (\<lambda>r. \<not> IsSpace r) s \<and> [] \<notin> set (Fields s)
   \<and> ParseQuery tbl (str ''x:foo'') = emptyQuery\<lparr>qName := [str ''x:foo'']\<rparr>"
proof -
  have v: "validColor c = (c \<in> {0x77, 0x75, 0x62, 0x72, 0x67, 0x6D})"
    by (auto simp: validColor_def str_simps)
  have f: "concat (Fields s) = filter (\<lambda>r. \<not> IsSpace r) s" "[] \<notin> set (Fields s)"
    by (simp_all add: Fields_def fieldsFrom_concat fieldsFrom_nonempty)
  have g: "qRule (ParseQuery tbl s)
     = map (\<lambda>t. ToLower tbl (drop 2 t)) (filter (\<lambda>t. classify t = RuleToken) (Fields s))"
    "qType (ParseQuery tbl s)
     = map (\<lambda>t. ToLower tbl (drop 2 t)) (filter (\<lambda>t. classify t = TypeToken) (Fields s))"
    "qColor (ParseQuery tbl s) = concat (map (tokenColors tbl) (Fields s))"
    "qName (ParseQuery tbl s)
     = map (ToLower tbl) (filter (\<lambda>t. classify t = NameToken) (Fields s))"
    by (simp_all add: ParseQuery_def foldl_addToken emptyQuery_def)
  show ?thesis
    using g v f HasPrefix_classify [of t] classify_name [of t] Parse_x_foo [of tbl]
    by simp
qed

lemma Fields_sample:
  "Fields (str ''c:WX t:Instant  o:damage c!r Shock'')
     = [str ''c:WX'', str ''t:Instant'', str ''o:damage'', str ''c!r'', str ''Shock'']"
  by (simp add: Fields_def str_simps IsSpace_def)

theorem ParseQuery_groups_witness:
  "qRule (ParseQuery latin1Lower (str ''c:WX t:Instant  o:damage c!r Shock'')) = [str ''damage'']
   \<and> qType (ParseQuery latin1Lower (str ''c:WX t:Instant  o:damage c!r Shock''))
       = [str ''instant'']
   \<and> qColor (ParseQuery latin1Lower (str ''c:WX t:Instant  o:damage c!r Shock''))
       = [str ''w'', str ''!r'']
   \<and> qName (ParseQuery latin1Lower (str ''c:WX t:Instant  o:damage c!r Shock''))
       = [str ''shock'']"
  using ParseQuery_groups [of latin1Lower "str ''c:WX t:Instant  o:damage c!r Shock''" "[]" 0]
  unfolding Fields_sample
  by (simp add: classify_def tokenColors_def colorLetters_def validColor_def ToLower_def
      unicode_ToLower_def str_simps)

section \<open>Properties of Cards.Query\<close>

lemma queryLoop_set:
  "set (queryLoop tbl q es match seen)
     \<subseteq> set match \<union> set (filter (Match tbl q) (map snd es))"
  by (induction tbl q es match seen rule: queryLoop.induct) auto

lemma queryLoop_names:
  "\<forall>n. readBool seen n = (n \<in> Name ` set match) \<Longrightarrow>
   Name ` set (queryLoop tbl q es match seen)
     = Name ` set match \<union> Name ` set (filter (Match tbl q) (map snd es))"
proof (induction tbl q es match seen rule: queryLoop.induct)
  case (1 tbl query match seen)
  then show ?case by simp
next
  case (2 tbl query k crd rest match seen)
  show ?case
  proof (cases "Match tbl query crd \<and> \<not> readBool seen (Name crd)")
    case True
    have "\<forall>n. readBool (setTrue seen (Name crd)) n = (n \<in> Name ` set (match @ [crd]))"
      using "2.prems" by (auto simp: readBool_def setTrue_def)
    from "2.IH"(1) [OF True this] True show ?thesis by auto
  next
    case False
    from "2.IH"(2) [OF False "2.prems"] False "2.prems" show ?thesis by auto
  qed
qed

lemma queryLoop_distinct:
  "\<forall>n. readBool seen n = (n \<in> Name ` set match) \<Longrightarrow> distinct (map Name match) \<Longrightarrow>
   distinct (map Name (queryLoop tbl q es match seen))"
proof (induction tbl q es match seen rule: queryLoop.induct)
  case (1 tbl query match seen)
  then show ?case by simp
next
  case (2 tbl query k crd rest match seen)
  show ?case
  proof (cases "Match tbl query crd \<and> \<not> readBool seen (Name crd)")
    case True
    have a: "\<forall>n. readBool (setTrue seen (Name crd)) n = (n \<in> Name ` set (match @ [crd]))"
      using "2.prems" by (auto simp: readBool_def setTrue_def)
    have b: "distinct (map Name (match @ [crd]))" using True "2.prems" by auto
    from "2.IH"(1) [OF True a b] True show ?thesis by simp
  next
    case False
    from "2.IH"(2) [OF False "2.prems"] False show ?thesis by auto
  qed
qed

lemma queryLoop_subseq:
  "\<exists>ys. queryLoop tbl q es match seen = match @ ys \<and> subseq ys (map snd es)"
proof (induction tbl q es match seen rule: queryLoop.induct)
  case (1 tbl query match seen)
  then show ?case by simp
next
  case (2 tbl query k crd rest match seen)
  show ?case
  proof (cases "Match tbl query crd \<and> \<not> readBool seen (Name crd)")
    case True
    from "2.IH"(1) [OF True] obtain ys where
      "queryLoop tbl query rest (match @ [crd]) (setTrue seen (Name crd)) = (match @ [crd]) @ ys
       \<and> subseq ys (map snd rest)" ..
    then have "queryLoop tbl query ((k, crd) # rest) match seen = match @ (crd # ys)
       \<and> subseq (crd # ys) (map snd ((k, crd) # rest))"
      using True by simp
    then show ?thesis by blast
  next
    case False
    from "2.IH"(2) [OF False] obtain ys where
      "queryLoop tbl query rest match seen = match @ ys \<and> subseq ys (map snd rest)" ..
    then have "queryLoop tbl query ((k, crd) # rest) match seen = match @ ys
       \<and> subseq ys (map snd ((k, crd) # rest))"
      using False by auto
    then show ?thesis by blast
  qed
qed

lemma queryLoop_filter:
  "\<forall>n. readBool seen n = (n \<in> Name ` set match) \<Longrightarrow> distinct (map (\<lambda>e. Name (snd e)) es) \<Longrightarrow>
   Name ` snd ` set es \<inter> Name ` set match = {} \<Longrightarrow>
   queryLoop tbl q es match seen = match @ filter (Match tbl q) (map snd es)"
proof (induction tbl q es match seen rule: queryLoop.induct)
  case (1 tbl query match seen)
  then show ?case by simp
next
  case (2 tbl query k crd rest match seen)
  have ns: "\<not> readBool seen (Name crd)" using "2.prems"(1,3) by auto
  have d: "distinct (map (\<lambda>e. Name (snd e)) rest)" using "2.prems"(2) by simp
  show ?case
  proof (cases "Match tbl query crd")
    case True
    have c: "Match tbl query crd \<and> \<not> readBool seen (Name crd)" using True ns by simp
    have a: "\<forall>n. readBool (setTrue seen (Name crd)) n = (n \<in> Name ` set (match @ [crd]))"
      using "2.prems"(1) by (auto simp: readBool_def setTrue_def)
    have e: "Name ` snd ` set rest \<inter> Name ` set (match @ [crd]) = {}"
      using "2.prems"(2,3) by (auto simp: image_iff)
    from "2.IH"(1) [OF c a d e] c show ?thesis by simp
  next
    case False
    have c: "\<not> (Match tbl query crd \<and> \<not> readBool seen (Name crd))" using False by simp
    have e: "Name ` snd ` set rest \<inter> Name ` set match = {}" using "2.prems"(3) by auto
    from "2.IH"(2) [OF c "2.prems"(1) d e] False show ?thesis by simp
  qed
qed

lemma Match_emptyQuery: "Match tbl emptyQuery crd"
  by (simp add: Match_def emptyQuery_def)

lemma addToken_invalid:
  "(classify t = ColorToken \<or> classify t = NotColorToken) \<and> colorLetters tbl t = [] \<Longrightarrow>
   addToken tbl q t = q"
  by (auto simp: addToken_def HasPrefix_classify colorLetters_def)

lemma foldl_invalid:
  "list_all (\<lambda>t. (classify t = ColorToken \<or> classify t = NotColorToken)
                  \<and> colorLetters tbl t = []) ts \<Longrightarrow>
   foldl (addToken tbl) q ts = q"
  by (induction ts arbitrary: q) (simp_all add: addToken_invalid)

lemma Fields_c_xyz: "Fields (str ''c:xyz'') = [str ''c:xyz'']"
  by (simp add: Fields_def str_simps IsSpace_def)

lemma invalid_c_xyz:
  "list_all (\<lambda>t. (classify t = ColorToken \<or> classify t = NotColorToken)
                  \<and> colorLetters tbl t = []) (Fields (str ''c:xyz''))"
  unfolding Fields_c_xyz
  by (simp add: classify_def colorLetters_def validColor_def ToLower_def
      unicode_ToLower_def str_simps)

lemma M_newCards: "M (newCards tbl m) = m"
  by (simp add: newCards_def generateNormalized_def)

lemma Parse_empty_iff:
  "(ParseQuery tbl q = emptyQuery)
     = list_all (\<lambda>t. (classify t = ColorToken \<or> classify t = NotColorToken)
                      \<and> colorLetters tbl t = []) (Fields q)"
proof
  assume e: "ParseQuery tbl q = emptyQuery"
  have r: "filter (\<lambda>t. classify t = RuleToken) (Fields q) = []"
    and ty: "filter (\<lambda>t. classify t = TypeToken) (Fields q) = []"
    and n: "filter (\<lambda>t. classify t = NameToken) (Fields q) = []"
    and c: "concat (map (tokenColors tbl) (Fields q)) = []"
    using foldl_addToken [of tbl emptyQuery "Fields q"] e
    by (simp_all add: ParseQuery_def emptyQuery_def)
  have "(classify t = ColorToken \<or> classify t = NotColorToken) \<and> colorLetters tbl t = []"
    if t: "t \<in> set (Fields q)" for t
  proof -
    have k: "classify t \<noteq> RuleToken" "classify t \<noteq> TypeToken" "classify t \<noteq> NameToken"
      using r ty n t by (auto simp: filter_empty_conv)
    have "tokenColors tbl t = []" using c t by simp
    then show ?thesis using k by (cases "classify t") (simp_all add: tokenColors_def)
  qed
  then show "list_all (\<lambda>t. (classify t = ColorToken \<or> classify t = NotColorToken)
                      \<and> colorLetters tbl t = []) (Fields q)"
    by (simp add: list_all_iff)
next
  assume "list_all (\<lambda>t. (classify t = ColorToken \<or> classify t = NotColorToken)
                      \<and> colorLetters tbl t = []) (Fields q)"
  then show "ParseQuery tbl q = emptyQuery" by (simp add: ParseQuery_def foldl_invalid)
qed

lemma twoCards_names: "distinct (map (\<lambda>e. Name (snd e)) twoCards)"
  by (simp add: twoCards_def shock_def counterspell_def str_simps)

lemma Fields_c_xr: "Fields (str ''c:xr'') = [str ''c:xr'']"
  by (simp add: Fields_def str_simps IsSpace_def)

lemma Parse_c_xr: "ParseQuery tbl (str ''c:xr'') = emptyQuery\<lparr>qColor := [str ''r'']\<rparr>"
  unfolding ParseQuery_def Fields_c_xr
  by (simp add: addToken_def HasPrefix_def str_simps ToLower_def unicode_ToLower_def
      validColor_def emptyQuery_def)

lemma names_lower:
  "ToLower latin1Lower (Name shock) = str ''shock''"
  "ToLower latin1Lower (Name counterspell) = str ''counterspell''"
  by (simp_all add: shock_def counterspell_def str_simps ToLower_def unicode_ToLower_def)

lemma no_x_foo:
  "\<not> Match latin1Lower (emptyQuery\<lparr>qName := [str ''x:foo'']\<rparr>) shock"
  "\<not> Match latin1Lower (emptyQuery\<lparr>qName := [str ''x:foo'']\<rparr>) counterspell"
  by (simp_all add: Match_def emptyQuery_def names_lower) (simp_all add: str_simps)

lemma only_red:
  "Match latin1Lower (emptyQuery\<lparr>qColor := [str ''r'']\<rparr>) shock"
  "\<not> Match latin1Lower (emptyQuery\<lparr>qColor := [str ''r'']\<rparr>) counterspell"
  by (simp_all add: Match_def emptyQuery_def colorStep_def shock_def counterspell_def
      shortColor_def str_simps)

text \<open>
  A token with an unknown prefix is a name predicate and a colour token keeps its valid
  letters, so such queries do not parse to empty groups and do not match every card.
\<close>

theorem malformed_query_counterexample:
  "ParseQuery latin1Lower (str ''x:foo'') = emptyQuery\<lparr>qName := [str ''x:foo'']\<rparr>
   \<and> shock \<in> snd ` set (M (newCards latin1Lower twoCards))
   \<and> Cards_Query latin1Lower (newCards latin1Lower twoCards) (str ''x:foo'') = ([], None)
   \<and> ParseQuery latin1Lower (str ''c:xr'') = emptyQuery\<lparr>qColor := [str ''r'']\<rparr>
   \<and> Cards_Query latin1Lower (newCards latin1Lower twoCards) (str ''c:xr'')
       = ([shock], None)"
proof -
  have a: "shock \<in> snd ` set (M (newCards latin1Lower twoCards))"
    by (simp add: M_newCards twoCards_def)
  have b: "Cards_Query latin1Lower (newCards latin1Lower twoCards) (str ''x:foo'') = ([], None)"
    unfolding Cards_Query_def Parse_x_foo M_newCards twoCards_def
    by (simp add: no_x_foo)
  have c: "Cards_Query latin1Lower (newCards latin1Lower twoCards) (str ''c:xr'')
       = ([shock], None)"
    unfolding Cards_Query_def Parse_c_xr M_newCards twoCards_def
    by (simp add: only_red readBool_def)
  show ?thesis using a b c Parse_x_foo [of latin1Lower] Parse_c_xr [of latin1Lower] by simp
qed

text \<open>
  C8 (amended). \<open>Cards.Query\<close> returns a list and the error \<open>nil\<close> for every catalog and
  every query string. No two cards of the list have the same name; the list holds only
  cards of the catalog that match, in the order of the iteration, and every name of a
  matching card; when the names of the catalog are distinct, it is the list of all
  matching cards. A query parses to the empty predicate groups exactly when each of its
  tokens is a colour token without a valid letter (\<open>c:xyz\<close> for one; the empty string
  has no token), and then every card of the catalog matches. Every other token adds a
  predicate.
\<close>

theorem Cards_Query_result:
  "snd (Cards_Query tbl c q) = None
   \<and> distinct (map Name (fst (Cards_Query tbl c q)))
   \<and> set (fst (Cards_Query tbl c q)) \<subseteq> set (matches tbl c q)
   \<and> Name ` set (fst (Cards_Query tbl c q)) = Name ` set (matches tbl c q)
   \<and> subseq (fst (Cards_Query tbl c q)) (map snd (M c))
   \<and> (distinct (map (\<lambda>e. Name (snd e)) (M c))
        \<longrightarrow> fst (Cards_Query tbl c q) = matches tbl c q)
   \<and> Match tbl emptyQuery crd
   \<and> (ParseQuery tbl q = emptyQuery \<longrightarrow> matches tbl c q = map snd (M c))
   \<and> (ParseQuery tbl q = emptyQuery)
       = list_all (\<lambda>t. (classify t = ColorToken \<or> classify t = NotColorToken)
                        \<and> colorLetters tbl t = []) (Fields q)
   \<and> ParseQuery tbl (str ''c:xyz'') = emptyQuery \<and> ParseQuery tbl [] = emptyQuery"
proof -
  let ?Q = "ParseQuery tbl q"
  have e: "\<forall>n. readBool Map.empty n = (n \<in> Name ` set ([] :: Card list))"
    by (simp add: readBool_def)
  have a: "snd (Cards_Query tbl c q) = None" by (simp add: Cards_Query_def)
  have b: "distinct (map Name (fst (Cards_Query tbl c q)))"
    using queryLoop_distinct [OF e, of tbl ?Q "M c"] by (simp add: Cards_Query_def)
  have s: "set (fst (Cards_Query tbl c q)) \<subseteq> set (matches tbl c q)"
    using queryLoop_set [of tbl ?Q "M c" "[]" Map.empty]
    by (simp add: Cards_Query_def matches_def)
  have n: "Name ` set (fst (Cards_Query tbl c q)) = Name ` set (matches tbl c q)"
    using queryLoop_names [OF e, of tbl ?Q "M c"] by (simp add: Cards_Query_def matches_def)
  have o: "subseq (fst (Cards_Query tbl c q)) (map snd (M c))"
    using queryLoop_subseq [of tbl ?Q "M c" "[]" Map.empty] by (auto simp: Cards_Query_def)
  have f: "distinct (map (\<lambda>e. Name (snd e)) (M c)) \<longrightarrow>
             fst (Cards_Query tbl c q) = matches tbl c q"
    using queryLoop_filter [OF e, of "M c" tbl ?Q] by (simp add: Cards_Query_def matches_def)
  have m: "ParseQuery tbl q = emptyQuery \<longrightarrow> matches tbl c q = map snd (M c)"
    by (simp add: matches_def Match_emptyQuery)
  note i = Parse_empty_iff [of tbl q]
  have x: "ParseQuery tbl (str ''c:xyz'') = emptyQuery"
    using invalid_c_xyz [of tbl] by (simp add: ParseQuery_def foldl_invalid)
  have y: "ParseQuery tbl [] = emptyQuery" by (simp add: ParseQuery_def Fields_def)
  show ?thesis using a b s n o f m i x y Match_emptyQuery [of tbl crd] by simp
qed

theorem Cards_Query_result_witness:
  "distinct (map (\<lambda>e. Name (snd e)) (M (newCards latin1Lower twoCards)))
   \<and> list_all (\<lambda>t. (classify t = ColorToken \<or> classify t = NotColorToken)
                   \<and> colorLetters latin1Lower t = []) (Fields (str ''c:xyz''))
   \<and> Cards_Query latin1Lower (newCards latin1Lower twoCards) (str ''c:xyz'')
       = ([shock, counterspell], None)"
proof -
  note T = Cards_Query_result
    [of latin1Lower "newCards latin1Lower twoCards" "str ''c:xyz''" shock]
  have d: "distinct (map (\<lambda>e. Name (snd e)) (M (newCards latin1Lower twoCards)))"
    by (simp add: M_newCards twoCards_names)
  have l: "list_all (\<lambda>t. (classify t = ColorToken \<or> classify t = NotColorToken)
                   \<and> colorLetters latin1Lower t = []) (Fields (str ''c:xyz''))"
    by (rule invalid_c_xyz)
  from T l have "ParseQuery latin1Lower (str ''c:xyz'') = emptyQuery" by blast
  with T have "matches latin1Lower (newCards latin1Lower twoCards) (str ''c:xyz'')
      = map snd (M (newCards latin1Lower twoCards))" by blast
  moreover from T d have
    "fst (Cards_Query latin1Lower (newCards latin1Lower twoCards) (str ''c:xyz''))
      = matches latin1Lower (newCards latin1Lower twoCards) (str ''c:xyz'')" by blast
  moreover from T have
    "snd (Cards_Query latin1Lower (newCards latin1Lower twoCards) (str ''c:xyz'')) = None"
    by blast
  ultimately have "Cards_Query latin1Lower (newCards latin1Lower twoCards) (str ''c:xyz'')
       = ([shock, counterspell], None)"
    by (simp add: M_newCards twoCards_def prod_eq_iff)
  then show ?thesis using d l by blast
qed

section \<open>Properties of the normalized index\<close>

lemma replaceFrom_single:
  "replaceFrom s [r] new = concat (map (\<lambda>x. if x = r then new else [x]) s)"
  by (induction s) auto

lemma normalizeCardName_runes: "normalizeCardName s = concat (map normRune s)"
  by (induction s)
    (auto simp: normalizeCardName_def Replace_def replaceFrom_single normRune_def str_simps)

lemma normalizeCardName_append:
  "normalizeCardName (a @ b) = normalizeCardName a @ normalizeCardName b"
  by (simp add: normalizeCardName_runes)

lemma ToLower_append: "ToLower tbl (a @ b) = ToLower tbl a @ ToLower tbl b"
  by (simp add: ToLower_def)

lemma indexCard_apply:
  "indexCard tbl n crd k = (if k \<in> set (cardKeys tbl crd) then Some crd else n k)"
  by (auto simp: indexCard_def cardKeys_def joinedKey_def primaryKey_def Let_def)

lemma foldl_indexCard:
  "foldl (indexCard tbl) n cs k = (case lastFiled tbl k cs of None \<Rightarrow> n k | Some c \<Rightarrow> Some c)"
  by (induction cs rule: rev_induct) (auto simp: lastFiled_def indexCard_apply)

lemma normalized_newCards: "normalized (newCards tbl m) k = lastFiled tbl k (map snd m)"
  by (simp add: newCards_def generateNormalized_def foldl_indexCard split: option.splits)

lemma find_SomeD: "List.find P xs = Some x \<Longrightarrow> x \<in> set xs \<and> P x"
  by (induction xs) (auto split: if_splits)

lemma lastFiled_Some:
  "lastFiled tbl k cs = Some c \<Longrightarrow> c \<in> set cs \<and> k \<in> set (cardKeys tbl c)"
  unfolding lastFiled_def using find_SomeD [of "\<lambda>c. k \<in> set (cardKeys tbl c)" "rev cs" c]
  by simp

lemma lastFiled_exists:
  "c \<in> set cs \<Longrightarrow> k \<in> set (cardKeys tbl c) \<Longrightarrow> \<exists>c'. lastFiled tbl k cs = Some c'"
  unfolding lastFiled_def
  by (cases "find (\<lambda>c. k \<in> set (cardKeys tbl c)) (rev cs)") (auto simp: find_None_iff)

lemma lastFiled_last:
  "k \<in> set (cardKeys tbl c) \<Longrightarrow> list_all (\<lambda>c'. k \<notin> set (cardKeys tbl c')) post \<Longrightarrow>
   lastFiled tbl k (pre @ c # post) = Some c"
  unfolding lastFiled_def by (induction post rule: rev_induct) auto

lemma ToLower_ascii:
  "ToLower tbl [] = []"
  "r \<le> 0x7F \<Longrightarrow> ToLower tbl (r # rs)
     = (if 0x41 \<le> r \<and> r \<le> 0x5A then r + 0x20 else r) # ToLower tbl rs"
  by (simp_all add: ToLower_def unicode_ToLower_def)

lemma keys_shock:
  "cardKeys tbl shock = [str ''shock'']" "cardKeys tbl shoutedShock = [str ''shock'']"
  "primaryKey tbl shock = str ''shock''"
  by (simp_all add: cardKeys_def primaryKey_def shock_def shoutedShock_def
      normalizeCardName_runes normRune_def str_simps ToLower_ascii)

text \<open>
  Two entries whose names differ only in letter case are filed under the same key; the
  entry visited first is then not found under the key of its own name.
\<close>

theorem primary_key_counterexample:
  "(str ''Shock'', shock) \<in> set caseCollision
   \<and> normalized (newCards latin1Lower caseCollision)
        (ToLower latin1Lower (normalizeCardName (Name shock))) = Some shoutedShock
   \<and> normalized (newCards latin1Lower caseCollision)
        (ToLower latin1Lower (normalizeCardName (Name shock))) \<noteq> Some shock"
proof -
  have k: "ToLower latin1Lower (normalizeCardName (Name shock)) = str ''shock''"
    using keys_shock(3) [of latin1Lower] by (simp add: primaryKey_def)
  have n: "shoutedShock \<noteq> shock"
    by (simp add: shoutedShock_def shock_def str_simps)
  have "normalized (newCards latin1Lower caseCollision) (str ''shock'') = Some shoutedShock"
    by (simp add: normalized_newCards lastFiled_def caseCollision_def keys_shock)
  then show ?thesis using n unfolding k by (simp add: caseCollision_def)
qed

lemma filed_key:
  assumes "(k, crd) \<in> set m" "key \<in> set (cardKeys tbl crd)"
  shows "(\<exists>crd'. normalized (newCards tbl m) key = Some crd' \<and> crd' \<in> snd ` set m
            \<and> key \<in> set (cardKeys tbl crd'))
         \<and> normalized (newCards tbl m) key = lastFiled tbl key (map snd m)
         \<and> (\<forall>pre post. m = pre @ (k, crd) # post
                \<and> list_all (\<lambda>e. key \<notin> set (cardKeys tbl (snd e))) post
              \<longrightarrow> normalized (newCards tbl m) key = Some crd)"
proof -
  have c: "crd \<in> set (map snd m)" using assms(1) by force
  from lastFiled_exists [OF c assms(2)] obtain crd' where
    l: "lastFiled tbl key (map snd m) = Some crd'" ..
  from lastFiled_Some [OF l] have "crd' \<in> snd ` set m \<and> key \<in> set (cardKeys tbl crd')"
    by simp
  then have a: "\<exists>crd'. normalized (newCards tbl m) key = Some crd' \<and> crd' \<in> snd ` set m
            \<and> key \<in> set (cardKeys tbl crd')"
    using l by (simp add: normalized_newCards)
  have b: "normalized (newCards tbl m) key = Some crd"
    if "m = pre @ (k, crd) # post"
      "list_all (\<lambda>e. key \<notin> set (cardKeys tbl (snd e))) post" for pre post
  proof -
    have "list_all (\<lambda>c'. key \<notin> set (cardKeys tbl c')) (map snd post)"
      using that(2) by (simp add: list_all_iff)
    from lastFiled_last [OF assms(2) this, of "map snd pre"] that(1) show ?thesis
      by (simp add: normalized_newCards)
  qed
  show ?thesis using a b by (simp add: normalized_newCards)
qed

text \<open>
  C4 (amended). For every catalog built from decoded entries and every card of it, the
  index has an entry under the card's primary name, character-normalized (U+00C6 to Ae,
  U+2019 to the apostrophe) and then lowercased. The entry is a card of the catalog that
  is filed under this key, namely the one visited last in the build; it is that exact
  card whenever no card visited after it is filed under the same key.
\<close>

theorem normalized_primary_key:
  assumes "(k, crd) \<in> set m"
  shows "LookupNormalized tbl (newCards tbl m) (Name crd)
           = normalized (newCards tbl m) (primaryKey tbl crd)
         \<and> primaryKey tbl crd = ToLower tbl (concat (map normRune (Name crd)))
         \<and> (\<exists>crd'. normalized (newCards tbl m) (primaryKey tbl crd) = Some crd'
               \<and> crd' \<in> snd ` set m \<and> primaryKey tbl crd \<in> set (cardKeys tbl crd'))
         \<and> normalized (newCards tbl m) (primaryKey tbl crd)
             = lastFiled tbl (primaryKey tbl crd) (map snd m)
         \<and> (\<forall>pre post. m = pre @ (k, crd) # post
                \<and> list_all (\<lambda>e. primaryKey tbl crd \<notin> set (cardKeys tbl (snd e))) post
              \<longrightarrow> normalized (newCards tbl m) (primaryKey tbl crd) = Some crd)"
proof -
  have "primaryKey tbl crd \<in> set (cardKeys tbl crd)" by (simp add: cardKeys_def)
  note f = filed_key [OF assms this]
  have pk: "primaryKey tbl crd = ToLower tbl (concat (map normRune (Name crd)))"
    by (simp add: primaryKey_def normalizeCardName_runes)
  have lk: "LookupNormalized tbl (newCards tbl m) (Name crd)
           = normalized (newCards tbl m) (primaryKey tbl crd)"
    by (simp add: LookupNormalized_def primaryKey_def)
  show ?thesis
    apply (rule conjI [OF lk])
    apply (rule conjI [OF pk])
    apply (rule f)
    done
qed

lemma keys_counterspell: "cardKeys tbl counterspell = [str ''counterspell'']"
  by (simp add: cardKeys_def primaryKey_def counterspell_def normalizeCardName_runes
      normRune_def str_simps ToLower_ascii)

theorem normalized_primary_key_witness:
  "(str ''Shock'', shock) \<in> set twoCards
   \<and> twoCards = [] @ (str ''Shock'', shock) # [(str ''Counterspell'', counterspell)]
   \<and> list_all (\<lambda>e. primaryKey latin1Lower shock \<notin> set (cardKeys latin1Lower (snd e)))
        [(str ''Counterspell'', counterspell)]
   \<and> normalized (newCards latin1Lower twoCards) (str ''shock'') = Some shock
   \<and> LookupNormalized latin1Lower (newCards latin1Lower twoCards) (str ''Shock'') = Some shock"
proof -
  have a: "(str ''Shock'', shock) \<in> set twoCards" by (simp add: twoCards_def)
  have b: "twoCards = [] @ (str ''Shock'', shock) # [(str ''Counterspell'', counterspell)]"
    by (simp add: twoCards_def)
  have c: "list_all (\<lambda>e. primaryKey latin1Lower shock \<notin> set (cardKeys latin1Lower (snd e)))
        [(str ''Counterspell'', counterspell)]"
    by (simp add: keys_shock keys_counterspell str_simps)
  note T = normalized_primary_key [OF a, of latin1Lower]
  from T b c have d: "normalized (newCards latin1Lower twoCards) (primaryKey latin1Lower shock)
      = Some shock" by blast
  have n: "Name shock = str ''Shock''" by (simp add: shock_def)
  from T d have "LookupNormalized latin1Lower (newCards latin1Lower twoCards) (Name shock)
      = Some shock" by simp
  then show ?thesis using a b c d by (simp add: keys_shock n)
qed

lemma joined_A_B:
  "ToLower tbl (Join [str ''A'', str ''B''] (str '' & '')) = str ''a & b''"
  "ToLower tbl (Join [str ''A'', str ''B''] (str '' / '')) = str ''a / b''"
  "ToLower tbl (Join [str ''A'', str ''B''] (str '' // '')) = str ''a // b''"
  by (simp_all add: str_simps ToLower_ascii)

lemma keys_split:
  "cardKeys tbl fire = [str ''fire & ice'', str ''fire / ice'', str ''fire // ice'', str ''fire'']"
  "cardKeys tbl ice = [str ''fire & ice'', str ''fire / ice'', str ''fire // ice'', str ''ice'']"
  by (simp_all add: cardKeys_def joinedKey_def primaryKey_def fire_def ice_def
      normalizeCardName_runes normRune_def str_simps ToLower_ascii)

lemma keys_halves:
  "cardKeys tbl halfA = [str ''a & b'', str ''a / b'', str ''a // b'', str ''a'']"
  "cardKeys tbl halfB = [str ''a & b'', str ''a / b'', str ''a // b'', str ''b'']"
  by (simp_all add: cardKeys_def joinedKey_def primaryKey_def halfA_def halfB_def
      normalizeCardName_runes normRune_def str_simps ToLower_ascii)

text \<open>
  The two halves of a split card carry the same component names, so both are filed under
  the same three joined keys, and the half visited first is not what these keys resolve to.
\<close>

theorem joined_key_counterexample:
  "(str ''A'', halfA) \<in> set twoHalves \<and> Names halfA = [str ''A'', str ''B'']
   \<and> normalized (newCards latin1Lower twoHalves) (str ''a & b'') = Some halfB
   \<and> normalized (newCards latin1Lower twoHalves) (str ''a / b'') = Some halfB
   \<and> normalized (newCards latin1Lower twoHalves) (str ''a // b'') = Some halfB
   \<and> normalized (newCards latin1Lower twoHalves) (str ''a // b'') \<noteq> Some halfA"
proof -
  have n: "halfB \<noteq> halfA" by (simp add: halfA_def halfB_def str_simps)
  have "normalized (newCards latin1Lower twoHalves) (str ''a & b'') = Some halfB"
    "normalized (newCards latin1Lower twoHalves) (str ''a / b'') = Some halfB"
    "normalized (newCards latin1Lower twoHalves) (str ''a // b'') = Some halfB"
    by (simp_all add: normalized_newCards lastFiled_def twoHalves_def keys_halves)
  then show ?thesis using n by (simp add: twoHalves_def halfA_def)
qed

text \<open>
  C7 (amended). For every card of a catalog with a non-empty list of component names, the
  index has an entry under the component names joined with each of the separators
  \<open> & \<close>, \<open> / \<close> and \<open> // \<close> and lowercased (for the names A and B: \<open>a & b\<close>,
  \<open>a / b\<close>, \<open>a // b\<close>). The entry is a card of the catalog filed under that key, the one
  visited last in the build; it is that card whenever no card visited after it is filed
  under the same key.
\<close>

theorem normalized_joined_keys:
  assumes "(k, crd) \<in> set m" "Names crd \<noteq> []"
    "sep \<in> {str '' & '', str '' / '', str '' // ''}"
  shows "joinedKey tbl crd sep = ToLower tbl (Join (Names crd) sep)
         \<and> ToLower tbl (Join [str ''A'', str ''B''] (str '' & '')) = str ''a & b''
         \<and> ToLower tbl (Join [str ''A'', str ''B''] (str '' / '')) = str ''a / b''
         \<and> ToLower tbl (Join [str ''A'', str ''B''] (str '' // '')) = str ''a // b''
         \<and> (\<exists>crd'. normalized (newCards tbl m) (joinedKey tbl crd sep) = Some crd'
               \<and> crd' \<in> snd ` set m \<and> joinedKey tbl crd sep \<in> set (cardKeys tbl crd'))
         \<and> normalized (newCards tbl m) (joinedKey tbl crd sep)
             = lastFiled tbl (joinedKey tbl crd sep) (map snd m)
         \<and> (\<forall>pre post. m = pre @ (k, crd) # post
                \<and> list_all (\<lambda>e. joinedKey tbl crd sep \<notin> set (cardKeys tbl (snd e))) post
              \<longrightarrow> normalized (newCards tbl m) (joinedKey tbl crd sep) = Some crd)"
proof -
  have "joinedKey tbl crd sep \<in> set (cardKeys tbl crd)"
    using assms(2,3) by (auto simp: cardKeys_def)
  note f = filed_key [OF assms(1) this]
  have j: "joinedKey tbl crd sep = ToLower tbl (Join (Names crd) sep)"
    by (simp add: joinedKey_def)
  show ?thesis
    apply (rule conjI [OF j])
    apply (rule conjI [OF joined_A_B(1)])
    apply (rule conjI [OF joined_A_B(2)])
    apply (rule conjI [OF joined_A_B(3)])
    apply (rule f)
    done
qed

theorem normalized_joined_keys_witness:
  "(str ''Ice'', ice) \<in> set splitCards \<and> Names ice \<noteq> []
   \<and> str '' // '' \<in> {str '' & '', str '' / '', str '' // ''}
   \<and> splitCards = [(str ''Fire'', fire)] @ (str ''Ice'', ice) # []
   \<and> list_all (\<lambda>e. joinedKey latin1Lower ice (str '' // '')
                     \<notin> set (cardKeys latin1Lower (snd e))) []
   \<and> normalized (newCards latin1Lower splitCards) (str ''fire // ice'') = Some ice"
proof -
  have a: "(str ''Ice'', ice) \<in> set splitCards" by (simp add: splitCards_def)
  have b: "Names ice \<noteq> []" by (simp add: ice_def)
  have c: "str '' // '' \<in> {str '' & '', str '' / '', str '' // ''}" by simp
  have d: "splitCards = [(str ''Fire'', fire)] @ (str ''Ice'', ice) # []"
    by (simp add: splitCards_def)
  have e: "list_all (\<lambda>e. joinedKey latin1Lower ice (str '' // '')
                     \<notin> set (cardKeys latin1Lower (snd e))) []" by simp
  note T = normalized_joined_keys [OF a b c, of latin1Lower]
  from T d e have "normalized (newCards latin1Lower splitCards)
      (joinedKey latin1Lower ice (str '' // '')) = Some ice" by blast
  moreover have "joinedKey latin1Lower ice (str '' // '') = str ''fire // ice''"
    by (simp add: joinedKey_def ice_def str_simps ToLower_ascii)
  ultimately show ?thesis using a b c d e by simp
qed

lemma key_upper_ligature:
  "ToLower tbl (normalizeCardName (a @ [0xC6] @ b))
     = ToLower tbl (normalizeCardName a) @ [0x61, 0x65] @ ToLower tbl (normalizeCardName b)"
  by (simp add: normalizeCardName_append ToLower_append)
    (simp add: normalizeCardName_runes normRune_def str_simps ToLower_ascii)

lemma key_lower_ligature:
  "ToLower tbl (normalizeCardName (a @ [0xE6] @ b))
     = ToLower tbl (normalizeCardName a) @ [unicode_ToLower tbl 0xE6]
       @ ToLower tbl (normalizeCardName b)"
  by (simp add: normalizeCardName_append ToLower_append)
    (simp add: normalizeCardName_runes normRune_def ToLower_def)

lemma lastFiled_None:
  "(lastFiled tbl k cs = None) = list_all (\<lambda>c. k \<notin> set (cardKeys tbl c)) cs"
  by (auto simp: lastFiled_def find_None_iff list_all_iff)

lemma ToLower_latin1:
  "ToLower latin1Lower (0xC6 # rs) = 0xE6 # ToLower latin1Lower rs"
  "ToLower latin1Lower (0xE6 # rs) = 0xE6 # ToLower latin1Lower rs"
  by (simp_all add: ToLower_def unicode_ToLower_def latin1Lower_def)

lemma keys_ligatureSplit:
  "cardKeys latin1Lower ligatureSplit
     = [0xE6 # str '' & b'', 0xE6 # str '' / b'', 0xE6 # str '' // b'', str ''ae // b'']"
  by (simp add: cardKeys_def joinedKey_def primaryKey_def ligatureSplit_def
      normalizeCardName_runes normRune_def str_simps ToLower_ascii ToLower_latin1)

lemma keys_vials:
  "cardKeys latin1Lower aetherVial = [str ''aether vial'']"
  "cardKeys latin1Lower lowerVial = [0xE6 # str ''ther vial'']"
  by (simp_all add: cardKeys_def primaryKey_def aetherVial_def lowerVial_def
      normalizeCardName_runes normRune_def str_simps ToLower_ascii ToLower_latin1)

lemma lower_inputs:
  "ToLower latin1Lower (normalizeCardName (0xE6 # str '' // B'')) = 0xE6 # str '' // b''"
  "ToLower latin1Lower (normalizeCardName (0xE6 # str ''ther Vial'')) = 0xE6 # str ''ther vial''"
  by (simp_all add: normalizeCardName_runes normRune_def str_simps ToLower_ascii
      ToLower_latin1)

text \<open>
  The joined component names are lowercased without the character substitution, and a
  card can be named with the lowercase ligature itself; in both cases the input written
  with U+00E6 is found.
\<close>

theorem ligature_lookup_counterexample:
  "Name ligatureSplit = [] @ [0xC6] @ str '' // B''
   \<and> LookupNormalized latin1Lower
        (newCards latin1Lower [(Name ligatureSplit, ligatureSplit)])
        ([] @ [0xE6] @ str '' // B'') = Some ligatureSplit
   \<and> Name aetherVial = [] @ [0xC6] @ str ''ther Vial''
   \<and> LookupNormalized latin1Lower
        (newCards latin1Lower [(Name aetherVial, aetherVial), (Name lowerVial, lowerVial)])
        ([] @ [0xE6] @ str ''ther Vial'') = Some lowerVial"
proof -
  have a: "LookupNormalized latin1Lower
        (newCards latin1Lower [(Name ligatureSplit, ligatureSplit)])
        (0xE6 # str '' // B'') = Some ligatureSplit"
    unfolding LookupNormalized_def lower_inputs normalized_newCards
    by (simp add: lastFiled_def keys_ligatureSplit)
  have b: "LookupNormalized latin1Lower
        (newCards latin1Lower [(Name aetherVial, aetherVial), (Name lowerVial, lowerVial)])
        (0xE6 # str ''ther Vial'') = Some lowerVial"
    unfolding LookupNormalized_def lower_inputs normalized_newCards
    by (simp add: lastFiled_def keys_vials)
  show ?thesis using a b by (simp add: ligatureSplit_def aetherVial_def)
qed

text \<open>
  C10 (amended). \<open>normalizeCardName\<close> changes only U+00C6 (to Ae) and U+2019 (to the
  apostrophe), and \<open>LookupNormalized\<close> lowercases after that substitution. Take a card
  of a catalog whose primary name has the ligature U+00C6, and an input that has U+00C6 at
  that place and agrees with the name up to letter case around it: the input is looked up
  under the primary key of the card and finds the card filed last under that key, the
  card itself when no card visited later is filed there. The same input with the
  lowercase ligature U+00E6 is looked up under a different key (given that the case table
  does not send U+00E6 to the letter a): it returns not-found exactly when no card of the
  catalog is filed under that other key, and it never returns a card without component
  names whose key is the primary key above.
\<close>

theorem LookupNormalized_ligature:
  assumes tb: "unicode_ToLower tbl 0xE6 \<noteq> 0x61"
    and mem: "(k, crd) \<in> set m"
    and nm: "Name crd = a' @ [0xC6] @ b'"
    and ca: "ToLower tbl (normalizeCardName a) = ToLower tbl (normalizeCardName a')"
    and cb: "ToLower tbl (normalizeCardName b) = ToLower tbl (normalizeCardName b')"
  shows "normalizeCardName s = concat (map normRune s)
         \<and> LookupNormalized tbl c s = normalized c (ToLower tbl (normalizeCardName s))
         \<and> ToLower tbl (normalizeCardName (a @ [0xC6] @ b)) = primaryKey tbl crd
         \<and> ToLower tbl (normalizeCardName (a @ [0xE6] @ b)) \<noteq> primaryKey tbl crd
         \<and> (\<exists>crd'. LookupNormalized tbl (newCards tbl m) (a @ [0xC6] @ b) = Some crd'
               \<and> crd' \<in> snd ` set m \<and> primaryKey tbl crd \<in> set (cardKeys tbl crd'))
         \<and> (\<forall>pre post. m = pre @ (k, crd) # post
                \<and> list_all (\<lambda>e. primaryKey tbl crd \<notin> set (cardKeys tbl (snd e))) post
              \<longrightarrow> LookupNormalized tbl (newCards tbl m) (a @ [0xC6] @ b) = Some crd)
         \<and> LookupNormalized tbl (newCards tbl m) (a @ [0xE6] @ b)
             = lastFiled tbl (ToLower tbl (normalizeCardName (a @ [0xE6] @ b))) (map snd m)
         \<and> (LookupNormalized tbl (newCards tbl m) (a @ [0xE6] @ b) = None)
             = list_all (\<lambda>e. ToLower tbl (normalizeCardName (a @ [0xE6] @ b))
                               \<notin> set (cardKeys tbl (snd e))) m
         \<and> (Names crd = []
              \<longrightarrow> LookupNormalized tbl (newCards tbl m) (a @ [0xE6] @ b) \<noteq> Some crd)"
proof -
  let ?up = "ToLower tbl (normalizeCardName (a @ [0xC6] @ b))"
  let ?lo = "ToLower tbl (normalizeCardName (a @ [0xE6] @ b))"
  have pk: "?up = primaryKey tbl crd"
    unfolding primaryKey_def nm key_upper_ligature by (simp add: ca cb)
  have ne': "?lo \<noteq> ?up"
    unfolding key_upper_ligature key_lower_ligature using tb by simp
  then have ne: "?lo \<noteq> primaryKey tbl crd" using pk by simp
  have pkk: "primaryKey tbl crd \<in> set (cardKeys tbl crd)" by (simp add: cardKeys_def)
  note f = filed_key [OF mem pkk]
  have lu: "LookupNormalized tbl (newCards tbl m) (a @ [0xC6] @ b)
      = normalized (newCards tbl m) (primaryKey tbl crd)"
    unfolding LookupNormalized_def pk ..
  have ex: "\<exists>crd'. LookupNormalized tbl (newCards tbl m) (a @ [0xC6] @ b) = Some crd'
               \<and> crd' \<in> snd ` set m \<and> primaryKey tbl crd \<in> set (cardKeys tbl crd')"
    unfolding lu using f by (rule conjunct1)
  have last: "\<forall>pre post. m = pre @ (k, crd) # post
                \<and> list_all (\<lambda>e. primaryKey tbl crd \<notin> set (cardKeys tbl (snd e))) post
              \<longrightarrow> LookupNormalized tbl (newCards tbl m) (a @ [0xC6] @ b) = Some crd"
    unfolding lu using f by (rule conjunct2 [THEN conjunct2])
  have lo: "LookupNormalized tbl (newCards tbl m) (a @ [0xE6] @ b)
             = lastFiled tbl ?lo (map snd m)"
    by (simp add: LookupNormalized_def normalized_newCards)
  have none: "(LookupNormalized tbl (newCards tbl m) (a @ [0xE6] @ b) = None)
             = list_all (\<lambda>e. ?lo \<notin> set (cardKeys tbl (snd e))) m"
    unfolding lo lastFiled_None by (simp add: list_all_iff)
  have notcrd: "Names crd = []
      \<longrightarrow> LookupNormalized tbl (newCards tbl m) (a @ [0xE6] @ b) \<noteq> Some crd"
  proof (intro impI notI)
    assume single: "Names crd = []"
    assume "LookupNormalized tbl (newCards tbl m) (a @ [0xE6] @ b) = Some crd"
    then have "lastFiled tbl ?lo (map snd m) = Some crd" unfolding lo .
    from lastFiled_Some [OF this] have "?lo \<in> set (cardKeys tbl crd)" by simp
    then show False using single ne by (simp add: cardKeys_def)
  qed
  have l: "LookupNormalized tbl c s = normalized c (ToLower tbl (normalizeCardName s))"
    by (simp add: LookupNormalized_def)
  show ?thesis
    apply (rule conjI [OF normalizeCardName_runes])
    apply (rule conjI [OF l])
    apply (rule conjI [OF pk])
    apply (rule conjI [OF ne])
    apply (rule conjI [OF ex])
    apply (rule conjI [OF last])
    apply (rule conjI [OF lo])
    apply (rule conjI [OF none])
    apply (rule notcrd)
    done
qed

theorem LookupNormalized_ligature_witness:
  "unicode_ToLower latin1Lower 0xE6 \<noteq> 0x61
   \<and> (Name aetherVial, aetherVial) \<in> set [(Name aetherVial, aetherVial), (str ''Shock'', shock)]
   \<and> Name aetherVial = [] @ [0xC6] @ str ''ther Vial''
   \<and> ToLower latin1Lower (normalizeCardName (str ''THER VIAL''))
       = ToLower latin1Lower (normalizeCardName (str ''ther Vial''))
   \<and> list_all (\<lambda>e. primaryKey latin1Lower aetherVial \<notin> set (cardKeys latin1Lower (snd e)))
        [(str ''Shock'', shock)]
   \<and> Names aetherVial = []
   \<and> LookupNormalized latin1Lower
        (newCards latin1Lower [(Name aetherVial, aetherVial), (str ''Shock'', shock)])
        (0xC6 # str ''THER VIAL'') = Some aetherVial
   \<and> LookupNormalized latin1Lower
        (newCards latin1Lower [(Name aetherVial, aetherVial), (str ''Shock'', shock)])
        (0xE6 # str ''THER VIAL'') = None"
proof -
  let ?m = "[(Name aetherVial, aetherVial), (str ''Shock'', shock)]"
  let ?lo = "ToLower latin1Lower (normalizeCardName ([] @ [0xE6] @ str ''THER VIAL''))"
  have tb: "unicode_ToLower latin1Lower 0xE6 \<noteq> 0x61"
    by (simp add: unicode_ToLower_def latin1Lower_def)
  have mem: "(Name aetherVial, aetherVial) \<in> set ?m" by simp
  have nm: "Name aetherVial = [] @ [0xC6] @ str ''ther Vial''"
    by (simp add: aetherVial_def)
  have ca: "ToLower latin1Lower (normalizeCardName [])
             = ToLower latin1Lower (normalizeCardName [])" by simp
  have cb: "ToLower latin1Lower (normalizeCardName (str ''THER VIAL''))
       = ToLower latin1Lower (normalizeCardName (str ''ther Vial''))"
    by (simp add: normalizeCardName_runes normRune_def str_simps ToLower_ascii)
  have pk: "primaryKey latin1Lower aetherVial = str ''aether vial''"
    by (simp add: primaryKey_def aetherVial_def normalizeCardName_runes normRune_def
        str_simps ToLower_ascii)
  have later: "list_all (\<lambda>e. primaryKey latin1Lower aetherVial
                  \<notin> set (cardKeys latin1Lower (snd e))) [(str ''Shock'', shock)]"
    unfolding pk by (simp add: keys_shock str_simps)
  have single: "Names aetherVial = []" by (simp add: aetherVial_def)
  have split: "?m = [] @ (Name aetherVial, aetherVial) # [(str ''Shock'', shock)]" by simp
  have lok: "?lo = 0xE6 # str ''ther vial''"
    by (simp add: normalizeCardName_runes normRune_def str_simps ToLower_ascii
        ToLower_latin1)
  have free: "list_all (\<lambda>e. ?lo \<notin> set (cardKeys latin1Lower (snd e))) ?m"
    unfolding lok by (simp add: keys_vials keys_shock str_simps)
  note T = LookupNormalized_ligature [OF tb mem nm ca cb]
  from T split later have "LookupNormalized latin1Lower (newCards latin1Lower ?m)
        ([] @ [0xC6] @ str ''THER VIAL'') = Some aetherVial" by blast
  moreover from T free have "LookupNormalized latin1Lower (newCards latin1Lower ?m)
        ([] @ [0xE6] @ str ''THER VIAL'') = None" by blast
  ultimately show ?thesis using tb nm cb later single by simp
qed

end
